theory Spec2Isabelle
  imports Main "HOL-Library.Monad_Syntax"
begin

section \<open>The scheduler of src/threads/thread.c\<close>

text \<open>
  A shallow embedding of the thread scheduler: the kernel's global variables and the
  memory holding the thread and lock structures form one state record, every C function
  becomes a function on that state, and a failed \<^verbatim>\<open>ASSERT\<close> (a kernel panic) or an
  arithmetic step that C leaves undefined is the result \<open>None\<close>.

  A pointer is an address, \<open>0\<close> being \<^verbatim>\<open>NULL\<close>. The intrusive list elements
  \<^verbatim>\<open>elem\<close>, \<^verbatim>\<open>allelem\<close> and \<^verbatim>\<open>sleeping_elem\<close> of a thread are represented by the
  thread's address standing in the list that links the element. C's \<^verbatim>\<open>int\<close> and
  \<^verbatim>\<open>int64_t\<close> are mathematical integers; where thread.c computes with them on values a
  caller chooses, leaving the type's range is checked and gives \<open>None\<close>.

  Embedded are \<^verbatim>\<open>thread_init\<close>, \<^verbatim>\<open>thread_tick\<close>, \<^verbatim>\<open>thread_create\<close>, \<^verbatim>\<open>thread_block\<close>,
  \<^verbatim>\<open>thread_unblock\<close>, \<^verbatim>\<open>thread_current\<close>, \<^verbatim>\<open>thread_yield\<close>, \<^verbatim>\<open>thread_foreach\<close>,
  \<^verbatim>\<open>thread_set_priority\<close>, \<^verbatim>\<open>thread_set_nice\<close>, \<^verbatim>\<open>get_ready_threads\<close>,
  \<^verbatim>\<open>is_thread\<close>, \<^verbatim>\<open>init_thread\<close>, \<^verbatim>\<open>next_thread_to_run\<close>, \<^verbatim>\<open>thread_schedule_tail\<close>,
  \<^verbatim>\<open>schedule\<close>, \<^verbatim>\<open>allocate_tid\<close>, the functions of the feedback scheduler, of the
  sleeping list and of priority donation, and the three comparison functions. The kernel
  is the one of the threads project, built without \<^verbatim>\<open>USERPROG\<close>.
\<close>

subsection \<open>Data\<close>

type_synonym addr = nat

datatype thread_status = THREAD_RUNNING | THREAD_READY | THREAD_BLOCKED | THREAD_DYING

datatype intr_level = INTR_OFF | INTR_ON

text \<open>
  The members of \<^verbatim>\<open>struct thread\<close> that thread.c reads or writes. The name, the stack
  pointer and the page directory play no part in scheduling decisions and are left out.
  The type \<open>'r\<close> is \<^verbatim>\<open>struct real\<close>, the fixed-point number of the arithmetic module.
\<close>

record 'r thread =
  tid :: int
  status :: thread_status
  priority :: int
  magic :: nat
  real_priority :: int
  Owned_locks :: "addr list"
  Waited_on_lock :: addr
  nice :: int
  recent_cpu :: 'r
  waik_up_time :: int

text \<open>The one member of \<^verbatim>\<open>struct lock\<close> that thread.c reads.\<close>

record lock =
  Waiting_threads_max_priority :: int

text \<open>
  The global variables of thread.c, the memory (\<open>threads\<close>, \<open>locks\<close>), the thread whose
  stack the CPU is on (\<open>running\<close>, what \<^verbatim>\<open>running_thread ()\<close> computes from the stack
  pointer), and the interrupt state that \<^verbatim>\<open>intr_get_level ()\<close>, \<^verbatim>\<open>intr_context ()\<close> and
  \<^verbatim>\<open>intr_yield_on_return ()\<close> read and write. \<open>freed\<close> collects the pages handed to
  \<^verbatim>\<open>palloc_free_page\<close>.
\<close>

record 'r kstate =
  threads :: "addr \<Rightarrow> 'r thread"
  locks :: "addr \<Rightarrow> lock"
  ready_list :: "addr list"
  all_list :: "addr list"
  sleeping_list :: "addr list"
  idle_thread :: addr
  initial_thread :: addr
  running :: addr
  idle_ticks :: int
  kernel_ticks :: int
  thread_ticks :: nat
  thread_mlfqs :: bool
  load_avg :: 'r
  next_tid :: int
  intr_get_level :: intr_level
  intr_context :: bool
  yield_on_return :: bool
  freed :: "addr list"

text \<open>
  What thread.c takes from headers and modules that are not part of the sources at hand:
  the priority bounds and \<^verbatim>\<open>TID_ERROR\<close> of threads/thread.h, and the operations of the
  fixed-point module on \<^verbatim>\<open>struct real\<close>. They are parameters of the model. \<open>real_zeroed\<close>
  is the \<^verbatim>\<open>struct real\<close> whose bytes are all zero, as \<^verbatim>\<open>memset\<close> leaves it.
  \<open>ComparePriority_allelem\<close> is what \<^verbatim>\<open>ComparePriority\<close> answers when \<^verbatim>\<open>init_thread\<close>
  hands it \<^verbatim>\<open>allelem\<close> pointers: it applies \<^verbatim>\<open>list_entry (..., elem)\<close> to them, so what it
  reads depends on the layout of \<^verbatim>\<open>struct thread\<close>.
\<close>

record 'r extern =
  PRI_MIN :: int
  PRI_DEFAULT :: int
  PRI_MAX :: int
  TID_ERROR :: int
  real_zeroed :: 'r
  int_to_real :: "int \<Rightarrow> 'r"
  real_to_int_toward_nearest :: "'r \<Rightarrow> int"
  add :: "'r \<Rightarrow> 'r \<Rightarrow> 'r"
  multiply :: "'r \<Rightarrow> 'r \<Rightarrow> 'r"
  divide_real :: "'r \<Rightarrow> 'r \<Rightarrow> 'r"
  multiply_by_int :: "'r \<Rightarrow> int \<Rightarrow> 'r"
  divide_by_int :: "'r \<Rightarrow> int \<Rightarrow> 'r"
  add_real_to_int :: "'r \<Rightarrow> int \<Rightarrow> 'r"
  ComparePriority_allelem :: "'r kstate \<Rightarrow> addr \<Rightarrow> addr \<Rightarrow> bool"

definition THREAD_MAGIC :: nat where
  "THREAD_MAGIC = 0xcd6abf4b"

definition TIME_SLICE :: nat where
  "TIME_SLICE = 4"

definition ASSERT :: "bool \<Rightarrow> unit option" where
  "ASSERT b = (if b then Some () else None)"

text \<open>The ranges of \<^verbatim>\<open>int\<close> and \<^verbatim>\<open>int64_t\<close>.\<close>

definition int_range :: "int \<Rightarrow> bool" where
  "int_range x \<longleftrightarrow> - (2 ^ 31) \<le> x \<and> x < 2 ^ 31"

definition int64_range :: "int \<Rightarrow> bool" where
  "int64_range x \<longleftrightarrow> - (2 ^ 63) \<le> x \<and> x < 2 ^ 63"

definition upd_thread :: "addr \<Rightarrow> ('r thread \<Rightarrow> 'r thread) \<Rightarrow> 'r kstate \<Rightarrow> 'r kstate" where
  "upd_thread t f s = s\<lparr>threads := (threads s)(t := f (threads s t))\<rparr>"

subsection \<open>The list library\<close>

text \<open>
  A \<^verbatim>\<open>struct list\<close> is the list of the addresses it links, front first:
  \<^verbatim>\<open>list_empty\<close> is \<open>xs = []\<close>, \<^verbatim>\<open>list_size\<close> is \<open>length\<close>, \<^verbatim>\<open>list_front\<close> is \<open>hd\<close>,
  \<^verbatim>\<open>list_pop_front\<close> leaves \<open>tl\<close>, and \<^verbatim>\<open>list_remove\<close> of an element is \<open>remove1\<close>.
  Where the code reads the front, it has tested that the list is not empty.
\<close>

text \<open>
  Modelled from the spec: \<^verbatim>\<open>list_insert_ordered\<close> of lib/kernel/list.c, which is not part
  of the sources at hand. It inserts the element in front of the first element that the
  comparison puts after it, so a list ordered by the comparison stays ordered and
  insertion order within equal keys is preserved.
\<close>

fun list_insert_ordered :: "('a \<Rightarrow> 'a \<Rightarrow> bool) \<Rightarrow> 'a \<Rightarrow> 'a list \<Rightarrow> 'a list" where
  "list_insert_ordered less_func elem [] = [elem]"
| "list_insert_ordered less_func elem (e # es) =
     (if less_func elem e then elem # e # es
      else e # list_insert_ordered less_func elem es)"

text \<open>
  Modelled from the spec: \<^verbatim>\<open>list_sort\<close> of lib/kernel/list.c, not part of the sources at
  hand: it re-sorts the list by the comparison, keeping the order of equal keys.
\<close>

definition list_sort :: "('a \<Rightarrow> 'a \<Rightarrow> bool) \<Rightarrow> 'a list \<Rightarrow> 'a list" where
  "list_sort less_func xs = foldl (\<lambda>acc x. list_insert_ordered less_func x acc) [] xs"

subsection \<open>Comparisons\<close>

definition ComparePriority :: "'r kstate \<Rightarrow> addr \<Rightarrow> addr \<Rightarrow> bool" where
  "ComparePriority s a b \<longleftrightarrow> priority (threads s a) > priority (threads s b)"

definition lock_cmp_priority :: "'r kstate \<Rightarrow> addr \<Rightarrow> addr \<Rightarrow> bool" where
  "lock_cmp_priority s a b \<longleftrightarrow>
     Waiting_threads_max_priority (locks s a) > Waiting_threads_max_priority (locks s b)"

definition thread_less_waik :: "'r kstate \<Rightarrow> addr \<Rightarrow> addr \<Rightarrow> bool" where
  "thread_less_waik s a b \<longleftrightarrow> waik_up_time (threads s a) < waik_up_time (threads s b)"

subsection \<open>Current thread, unblocking\<close>

definition is_thread :: "'r kstate \<Rightarrow> addr \<Rightarrow> bool" where
  "is_thread s t \<longleftrightarrow> t \<noteq> 0 \<and> magic (threads s t) = THREAD_MAGIC"

definition thread_current :: "'r kstate \<Rightarrow> addr option" where
  "thread_current s =
     (let t = running s in
      do {
        _ \<leftarrow> ASSERT (is_thread s t);
        _ \<leftarrow> ASSERT (status (threads s t) = THREAD_RUNNING);
        Some t
      })"

definition thread_unblock :: "addr \<Rightarrow> 'r kstate \<Rightarrow> 'r kstate option" where
  "thread_unblock t s =
     do {
       _ \<leftarrow> ASSERT (is_thread s t);
       let old_level = intr_get_level s;
       let s = s\<lparr>intr_get_level := INTR_OFF\<rparr>;
       _ \<leftarrow> ASSERT (status (threads s t) = THREAD_BLOCKED);
       let s = s\<lparr>ready_list := list_insert_ordered (ComparePriority s) t (ready_list s)\<rparr>;
       let s = upd_thread t (\<lambda>th. th\<lparr>status := THREAD_READY\<rparr>) s;
       Some (s\<lparr>intr_get_level := old_level\<rparr>)
     }"

subsection \<open>Dispatch\<close>

text \<open>
  \<^verbatim>\<open>switch_threads\<close> moves the CPU to the stack of the next thread, which goes on from
  where it was suspended, inside its own call of \<^verbatim>\<open>schedule\<close> (or, dispatched for the
  first time, in \<^verbatim>\<open>switch_entry\<close>), with \<^verbatim>\<open>thread_schedule_tail\<close>. The model follows the
  CPU: \<open>running\<close> becomes the next thread and \<^verbatim>\<open>switch_threads\<close> returns the thread
  switched from. What the caller of \<^verbatim>\<open>schedule\<close> has left to do it does when it is
  dispatched again; a function of the model that dispatches ends where the switch is
  complete.
\<close>

definition next_thread_to_run :: "'r kstate \<Rightarrow> addr \<times> 'r kstate" where
  "next_thread_to_run s =
     (case ready_list s of
        [] \<Rightarrow> (idle_thread s, s)
      | t # rest \<Rightarrow> (t, s\<lparr>ready_list := rest\<rparr>))"

definition thread_schedule_tail :: "addr \<Rightarrow> 'r kstate \<Rightarrow> 'r kstate option" where
  "thread_schedule_tail prev s =
     (let cur = running s in
      do {
        _ \<leftarrow> ASSERT (intr_get_level s = INTR_OFF);
        let s = upd_thread cur (\<lambda>th. th\<lparr>status := THREAD_RUNNING\<rparr>) s;
        let s = s\<lparr>thread_ticks := 0\<rparr>;
        if prev \<noteq> 0 \<and> status (threads s prev) = THREAD_DYING \<and> prev \<noteq> initial_thread s
        then do {
          _ \<leftarrow> ASSERT (prev \<noteq> cur);
          Some (s\<lparr>freed := prev # freed s\<rparr>)
        }
        else Some s
      })"

definition schedule :: "'r kstate \<Rightarrow> 'r kstate option" where
  "schedule s =
     (let cur = running s;
          next = fst (next_thread_to_run s);
          s = snd (next_thread_to_run s)
      in do {
        _ \<leftarrow> ASSERT (intr_get_level s = INTR_OFF);
        _ \<leftarrow> ASSERT (status (threads s cur) \<noteq> THREAD_RUNNING);
        _ \<leftarrow> ASSERT (is_thread s next);
        if cur \<noteq> next then thread_schedule_tail cur (s\<lparr>running := next\<rparr>)
        else thread_schedule_tail 0 s
      })"

definition thread_block :: "'r kstate \<Rightarrow> 'r kstate option" where
  "thread_block s =
     do {
       _ \<leftarrow> ASSERT (\<not> intr_context s);
       _ \<leftarrow> ASSERT (intr_get_level s = INTR_OFF);
       cur \<leftarrow> thread_current s;
       schedule (upd_thread cur (\<lambda>th. th\<lparr>status := THREAD_BLOCKED\<rparr>) s)
     }"

text \<open>
  After \<^verbatim>\<open>schedule ()\<close>, \<^verbatim>\<open>thread_yield\<close> restores the interrupt level. Where the
  dispatch chose the yielding thread itself this happens at once; otherwise it happens
  when that thread is dispatched again, and the model ends at the switch.
\<close>

definition thread_yield :: "'r kstate \<Rightarrow> 'r kstate option" where
  "thread_yield s =
     do {
       cur \<leftarrow> thread_current s;
       _ \<leftarrow> ASSERT (\<not> intr_context s);
       let old_level = intr_get_level s;
       let s = s\<lparr>intr_get_level := INTR_OFF\<rparr>;
       let s = (if cur \<noteq> idle_thread s
                then s\<lparr>ready_list := list_insert_ordered (ComparePriority s) cur (ready_list s)\<rparr>
                else s);
       let s = upd_thread cur (\<lambda>th. th\<lparr>status := THREAD_READY\<rparr>) s;
       s \<leftarrow> schedule s;
       Some (if running s = cur then s\<lparr>intr_get_level := old_level\<rparr> else s)
     }"

subsection \<open>Timer tick and sleeping\<close>

text \<open>
  The \<^verbatim>\<open>while\<close> loop of \<^verbatim>\<open>thread_tick\<close>. The iterator is advanced before the entry is
  unlinked, so the loop walks the list as it stood; \<^verbatim>\<open>list_remove (tmp)\<close> unlinks the
  entry just visited.
\<close>

fun thread_tick_loop :: "int \<Rightarrow> addr list \<Rightarrow> 'r kstate \<Rightarrow> 'r kstate option" where
  "thread_tick_loop current_time [] s = Some s"
| "thread_tick_loop current_time (thr # iter) s =
     (if current_time < waik_up_time (threads s thr) then Some s
      else do {
        s \<leftarrow> thread_unblock thr s;
        thread_tick_loop current_time iter (s\<lparr>sleeping_list := remove1 thr (sleeping_list s)\<rparr>)
      })"

text \<open>
  \<open>timer_ticks\<close> is the value \<^verbatim>\<open>timer_ticks ()\<close> of devices/timer.c returns.
  \<^verbatim>\<open>thread_ticks\<close> is \<^verbatim>\<open>unsigned\<close> and wraps around. \<^verbatim>\<open>intr_yield_on_return\<close> of
  threads/interrupt.c is taken to set its flag. Without \<^verbatim>\<open>USERPROG\<close> a tick is charged
  to the idle or to the kernel counter.
\<close>

definition thread_tick :: "int \<Rightarrow> 'r kstate \<Rightarrow> 'r kstate option" where
  "thread_tick timer_ticks s =
     do {
       t \<leftarrow> thread_current s;
       let s = (if t = idle_thread s then s\<lparr>idle_ticks := idle_ticks s + 1\<rparr>
                else s\<lparr>kernel_ticks := kernel_ticks s + 1\<rparr>);
       s \<leftarrow> thread_tick_loop timer_ticks (sleeping_list s) s;
       let s = s\<lparr>thread_ticks := (thread_ticks s + 1) mod 2 ^ 32\<rparr>;
       Some (if thread_ticks s \<ge> TIME_SLICE then s\<lparr>yield_on_return := True\<rparr> else s)
     }"

definition thread_sleep :: "int \<Rightarrow> int \<Rightarrow> 'r kstate \<Rightarrow> 'r kstate option" where
  "thread_sleep ticks current_time s =
     (let wake_up_time = current_time + ticks in
      do {
        _ \<leftarrow> ASSERT (int64_range wake_up_time);
        cur \<leftarrow> thread_current s;
        let s = upd_thread cur (\<lambda>th. th\<lparr>waik_up_time := wake_up_time\<rparr>) s;
        cur \<leftarrow> thread_current s;
        let s = s\<lparr>sleeping_list :=
                   list_insert_ordered (thread_less_waik s) cur (sleeping_list s)\<rparr>;
        thread_block s
      })"

subsection \<open>Priority donation\<close>

definition thread_update_priority :: "addr \<Rightarrow> 'r kstate \<Rightarrow> 'r kstate" where
  "thread_update_priority t s =
     (let old_level = intr_get_level s;
          s = s\<lparr>intr_get_level := INTR_OFF\<rparr>;
          max_pri = real_priority (threads s t)
      in if Owned_locks (threads s t) \<noteq> []
         then
           (let s = upd_thread t
                      (\<lambda>th. th\<lparr>Owned_locks :=
                         list_sort (lock_cmp_priority s) (Owned_locks th)\<rparr>) s;
                lock_pri =
                  Waiting_threads_max_priority (locks s (hd (Owned_locks (threads s t))));
                max_pri = (if max_pri < lock_pri then lock_pri else max_pri);
                s = upd_thread t (\<lambda>th. th\<lparr>priority := max_pri\<rparr>) s
            in s\<lparr>intr_get_level := old_level\<rparr>)
         else
           (let s = upd_thread t (\<lambda>th. th\<lparr>priority := max_pri\<rparr>) s
            in s\<lparr>intr_get_level := old_level\<rparr>))"

definition thread_donate_priority :: "addr \<Rightarrow> 'r kstate \<Rightarrow> 'r kstate" where
  "thread_donate_priority t s =
     (let old_level = intr_get_level s;
          s = s\<lparr>intr_get_level := INTR_OFF\<rparr>;
          s = thread_update_priority t s;
          s = (if status (threads s t) = THREAD_READY
               then (let s = s\<lparr>ready_list := remove1 t (ready_list s)\<rparr>
                     in s\<lparr>ready_list :=
                            list_insert_ordered (ComparePriority s) t (ready_list s)\<rparr>)
               else s)
      in s\<lparr>intr_get_level := old_level\<rparr>)"

definition thread_set_priority :: "int \<Rightarrow> 'r kstate \<Rightarrow> 'r kstate option" where
  "thread_set_priority new_priority s =
     (if thread_mlfqs s then Some s
      else
        (let old_level = intr_get_level s;
             s = s\<lparr>intr_get_level := INTR_OFF\<rparr>
         in do {
           cur \<leftarrow> thread_current s;
           let old_priority = priority (threads s cur);
           let s = upd_thread cur (\<lambda>th. th\<lparr>real_priority := new_priority\<rparr>) s;
           let flag = (Owned_locks (threads s cur) = [] \<or> new_priority > old_priority);
           let s = (if flag then upd_thread cur (\<lambda>th. th\<lparr>priority := new_priority\<rparr>) s
                    else s);
           let s = s\<lparr>intr_get_level := old_level\<rparr>;
           if flag then thread_yield s else Some s
         }))"

subsection \<open>The multi-level feedback queue scheduler\<close>

text \<open>
  \<^verbatim>\<open>PRI_MAX - real_to_int_toward_nearest (...) - (t->nice * 2)\<close> is computed in
  \<^verbatim>\<open>int\<close>; a step that leaves the range of \<^verbatim>\<open>int\<close> is undefined in C.
\<close>

definition thread_update_priority_mlfqs :: "'r extern \<Rightarrow> addr \<Rightarrow> 'r kstate \<Rightarrow> 'r kstate option" where
  "thread_update_priority_mlfqs e t s =
     (let r = real_to_int_toward_nearest e (divide_by_int e (recent_cpu (threads s t)) 4);
          n2 = nice (threads s t) * 2;
          pri = PRI_MAX e - r - n2
      in do {
        _ \<leftarrow> ASSERT (int_range r \<and> int_range (PRI_MAX e - r) \<and> int_range n2 \<and> int_range pri);
        let pri = (if pri < PRI_MIN e then PRI_MIN e
                   else if pri > PRI_MAX e then PRI_MAX e
                   else pri);
        Some (upd_thread t (\<lambda>th. th\<lparr>priority := pri\<rparr>) s)
      })"

fun thread_foreach_loop ::
  "(addr \<Rightarrow> 'r kstate \<Rightarrow> 'r kstate option) \<Rightarrow> addr list \<Rightarrow> 'r kstate \<Rightarrow> 'r kstate option" where
  "thread_foreach_loop func [] s = Some s"
| "thread_foreach_loop func (t # e) s =
     (case func t s of None \<Rightarrow> None | Some s' \<Rightarrow> thread_foreach_loop func e s')"

definition thread_foreach ::
  "(addr \<Rightarrow> 'r kstate \<Rightarrow> 'r kstate option) \<Rightarrow> 'r kstate \<Rightarrow> 'r kstate option" where
  "thread_foreach func s =
     do {
       _ \<leftarrow> ASSERT (intr_get_level s = INTR_OFF);
       thread_foreach_loop func (all_list s) s
     }"

definition get_ready_threads :: "'r kstate \<Rightarrow> int option" where
  "get_ready_threads s =
     do {
       cur \<leftarrow> thread_current s;
       Some (int (length (ready_list s)) + (if cur \<noteq> idle_thread s then 1 else 0))
     }"

definition thread_update_recent_cpu :: "'r extern \<Rightarrow> addr \<Rightarrow> 'r kstate \<Rightarrow> 'r kstate option" where
  "thread_update_recent_cpu e t s =
     (let old_recent_cpu = recent_cpu (threads s t);
          recent_coff =
            divide_real e (multiply_by_int e (load_avg s) 2)
              (add_real_to_int e (multiply_by_int e (load_avg s) 2) 1);
          s = upd_thread t
                (\<lambda>th. th\<lparr>recent_cpu :=
                   add_real_to_int e (multiply e old_recent_cpu recent_coff) (nice th)\<rparr>) s
      in thread_update_priority_mlfqs e t s)"

definition thread_try_yeild :: "'r kstate \<Rightarrow> 'r kstate option" where
  "thread_try_yeild s =
     (if intr_context s then Some s
      else
        (let old_level = intr_get_level s;
             s = s\<lparr>intr_get_level := INTR_OFF\<rparr>
         in do {
           flag \<leftarrow>
             (if ready_list s \<noteq> []
              then do {
                cur \<leftarrow> thread_current s;
                Some (priority (threads s (hd (ready_list s))) > priority (threads s cur))
              }
              else Some False);
           let s = s\<lparr>intr_get_level := old_level\<rparr>;
           if flag then thread_yield s else Some s
         }))"

definition thread_update_recent_cpu_and_load_avg :: "'r extern \<Rightarrow> 'r kstate \<Rightarrow> 'r kstate option" where
  "thread_update_recent_cpu_and_load_avg e s =
     do {
       ready_threads \<leftarrow> get_ready_threads s;
       let c_59_60 = divide_real e (int_to_real e 59) (int_to_real e 60);
       let c_1_60 = divide_real e (int_to_real e 1) (int_to_real e 60);
       let s = s\<lparr>load_avg :=
                  add e (multiply e c_59_60 (load_avg s))
                    (multiply e c_1_60 (int_to_real e ready_threads))\<rparr>;
       s \<leftarrow> thread_foreach (thread_update_recent_cpu e) s;
       thread_try_yeild s
     }"

definition thread_update_priority_mlfqs_all :: "'r extern \<Rightarrow> 'r kstate \<Rightarrow> 'r kstate option" where
  "thread_update_priority_mlfqs_all e s =
     do {
       s \<leftarrow> thread_foreach (thread_update_priority_mlfqs e) s;
       Some (s\<lparr>ready_list := list_sort (ComparePriority s) (ready_list s)\<rparr>)
     }"

definition thread_set_nice :: "'r extern \<Rightarrow> int \<Rightarrow> 'r kstate \<Rightarrow> 'r kstate option" where
  "thread_set_nice e new_nice s =
     do {
       t \<leftarrow> thread_current s;
       let s = upd_thread t (\<lambda>th. th\<lparr>nice := new_nice\<rparr>) s;
       s \<leftarrow> thread_update_priority_mlfqs e t s;
       thread_try_yeild s
     }"

subsection \<open>Creating threads\<close>

definition init_thread :: "'r extern \<Rightarrow> addr \<Rightarrow> int \<Rightarrow> 'r kstate \<Rightarrow> 'r kstate option" where
  "init_thread e t pri s =
     do {
       _ \<leftarrow> ASSERT (t \<noteq> 0);
       _ \<leftarrow> ASSERT (PRI_MIN e \<le> pri \<and> pri \<le> PRI_MAX e);
       let s = s\<lparr>threads := (threads s)(t :=
                  \<lparr>tid = 0, status = THREAD_BLOCKED, priority = pri, magic = THREAD_MAGIC,
                   real_priority = pri, Owned_locks = [], Waited_on_lock = 0, nice = 0,
                   recent_cpu = real_zeroed e, waik_up_time = 0\<rparr>)\<rparr>;
       let old_level = intr_get_level s;
       let s = s\<lparr>intr_get_level := INTR_OFF\<rparr>;
       let s = s\<lparr>all_list := list_insert_ordered (ComparePriority_allelem e s) t (all_list s)\<rparr>;
       Some (s\<lparr>intr_get_level := old_level\<rparr>)
     }"

text \<open>
  \<^verbatim>\<open>allocate_tid\<close> takes and releases \<^verbatim>\<open>tid_lock\<close> around the increment; the lock
  operations belong to threads/synch.c and are taken to succeed at once.
\<close>

definition allocate_tid :: "'r kstate \<Rightarrow> int \<times> 'r kstate" where
  "allocate_tid s = (next_tid s, s\<lparr>next_tid := next_tid s + 1\<rparr>)"

text \<open>
  \<open>page\<close> is what \<^verbatim>\<open>palloc_get_page (PAL_ZERO)\<close> returns and \<open>function\<close> the address of the
  thread's function. The three stack frames that \<^verbatim>\<open>thread_create\<close> sets up live on the
  new thread's stack, which the state leaves out.
\<close>

definition thread_create ::
  "'r extern \<Rightarrow> int \<Rightarrow> addr \<Rightarrow> addr \<Rightarrow> 'r kstate \<Rightarrow> (int \<times> 'r kstate) option" where
  "thread_create e pri function page s =
     do {
       _ \<leftarrow> ASSERT (function \<noteq> 0);
       let t = page;
       if t = 0 then Some (TID_ERROR e, s)
       else do {
         s \<leftarrow> init_thread e t pri s;
         let tid = fst (allocate_tid s);
         let s = snd (allocate_tid s);
         let s = upd_thread t (\<lambda>th. th\<lparr>tid := tid\<rparr>) s;
         s \<leftarrow>
           (if thread_mlfqs s
            then do {
              cur \<leftarrow> thread_current s;
              let s = upd_thread t (\<lambda>th. th\<lparr>recent_cpu := recent_cpu (threads s cur)\<rparr>) s;
              cur \<leftarrow> thread_current s;
              let s = upd_thread t (\<lambda>th. th\<lparr>nice := nice (threads s cur)\<rparr>) s;
              thread_update_priority_mlfqs e t s
            }
            else Some s);
         s \<leftarrow> thread_unblock t s;
         cur \<leftarrow> thread_current s;
         s \<leftarrow> (if priority (threads s cur) < pri then thread_yield s else Some s);
         Some (tid, s)
       }
     }"

text \<open>
  \<^verbatim>\<open>thread_init\<close> runs on the loader's stack, whose page \<^verbatim>\<open>running_thread ()\<close> finds;
  \<^verbatim>\<open>thread_mlfqs\<close> has been set from the command line by then.
\<close>

definition thread_init :: "'r extern \<Rightarrow> 'r kstate \<Rightarrow> 'r kstate option" where
  "thread_init e s =
     do {
       _ \<leftarrow> ASSERT (intr_get_level s = INTR_OFF);
       let s = s\<lparr>ready_list := [], all_list := [], sleeping_list := []\<rparr>;
       let s = s\<lparr>initial_thread := running s\<rparr>;
       s \<leftarrow> init_thread e (initial_thread s) (PRI_DEFAULT e) s;
       let s = upd_thread (initial_thread s) (\<lambda>th. th\<lparr>status := THREAD_RUNNING\<rparr>) s;
       let tid = fst (allocate_tid s);
       let s = snd (allocate_tid s);
       let s = upd_thread (initial_thread s) (\<lambda>th. th\<lparr>tid := tid\<rparr>) s;
       Some (if thread_mlfqs s
             then (let s = upd_thread (initial_thread s) (\<lambda>th. th\<lparr>nice := 0\<rparr>) s;
                       s = upd_thread (initial_thread s)
                             (\<lambda>th. th\<lparr>recent_cpu := int_to_real e 0\<rparr>) s
                   in s\<lparr>load_avg := int_to_real e 0\<rparr>)
             else s)
     }"

section \<open>Vocabulary of the properties\<close>

subsection \<open>The ready list\<close>

text \<open>A sequence of \<^verbatim>\<open>thread_unblock\<close> calls, one for each thread of the list in turn.\<close>

fun unblock_calls :: "addr list \<Rightarrow> 'r kstate \<Rightarrow> 'r kstate option" where
  "unblock_calls [] s = Some s"
| "unblock_calls (t # ts) s =
     (case thread_unblock t s of None \<Rightarrow> None | Some s' \<Rightarrow> unblock_calls ts s')"

text \<open>
  The ready list is in descending order of priority, links no thread twice and links
  ready threads only.
\<close>

definition ready_ok :: "'r kstate \<Rightarrow> bool" where
  "ready_ok s \<longleftrightarrow>
     sorted_wrt (\<lambda>a b. priority (threads s a) \<ge> priority (threads s b)) (ready_list s) \<and>
     distinct (ready_list s) \<and>
     list_all (\<lambda>t. status (threads s t) = THREAD_READY) (ready_list s)"

text \<open>No thread of the ready list has a higher priority than the one at its front.\<close>

definition front_is_max :: "'r kstate \<Rightarrow> bool" where
  "front_is_max s \<longleftrightarrow>
     list_all (\<lambda>t. priority (threads s t) \<le> priority (threads s (hd (ready_list s))))
       (ready_list s)"

text \<open>Distinct threads, each of them blocked.\<close>

definition blocked_threads :: "'r kstate \<Rightarrow> addr list \<Rightarrow> bool" where
  "blocked_threads s ts \<longleftrightarrow>
     distinct ts \<and> list_all (\<lambda>t. is_thread s t \<and> status (threads s t) = THREAD_BLOCKED) ts"

subsection \<open>Donation\<close>

text \<open>
  The greatest of the thread's base priority and the \<^verbatim>\<open>Waiting_threads_max_priority\<close>
  of the locks it owns; with no lock owned, the base priority.
\<close>

definition donated_priority :: "'r kstate \<Rightarrow> addr \<Rightarrow> int" where
  "donated_priority s t =
     Max (insert (real_priority (threads s t))
            ((\<lambda>l. Waiting_threads_max_priority (locks s l)) ` set (Owned_locks (threads s t))))"

subsection \<open>The derived priority\<close>

text \<open>
  The value \<^verbatim>\<open>thread_update_priority_mlfqs\<close> stores, as the code computes it from the
  thread's recent CPU time and niceness.
\<close>

definition derived_priority :: "'r extern \<Rightarrow> 'r \<Rightarrow> int \<Rightarrow> int" where
  "derived_priority e rc n =
     (let pri = PRI_MAX e - real_to_int_toward_nearest e (divide_by_int e rc 4) - n * 2
      in if pri < PRI_MIN e then PRI_MIN e
         else if pri > PRI_MAX e then PRI_MAX e
         else pri)"

text \<open>
  The derived priority as the specification words it: \<^verbatim>\<open>PRI_MAX\<close> less the recent CPU
  time over four, rounded to the nearest integer, less twice the niceness, clamped into
  the priority range.
\<close>

definition mlfqs_priority :: "'r extern \<Rightarrow> 'r \<Rightarrow> int \<Rightarrow> int" where
  "mlfqs_priority e rc n =
     max (PRI_MIN e)
       (min (PRI_MAX e) (PRI_MAX e - real_to_int_toward_nearest e (divide_by_int e rc 4) - n * 2))"

text \<open>The computation of the derived priority stays within \<^verbatim>\<open>int\<close>.\<close>

definition mlfqs_in_range :: "'r extern \<Rightarrow> 'r \<Rightarrow> int \<Rightarrow> bool" where
  "mlfqs_in_range e rc n \<longleftrightarrow>
     (let r = real_to_int_toward_nearest e (divide_by_int e rc 4)
      in int_range r \<and> int_range (PRI_MAX e - r) \<and> int_range (n * 2) \<and>
         int_range (PRI_MAX e - r - n * 2))"

subsection \<open>Dispatch\<close>

text \<open>The state in which a dispatch to the thread \<open>next\<close> ends.\<close>

definition dispatched :: "addr \<Rightarrow> 'r kstate \<Rightarrow> 'r kstate" where
  "dispatched next s =
     s\<lparr>threads := (threads s)(next := (threads s next)\<lparr>status := THREAD_RUNNING\<rparr>),
       running := next, thread_ticks := 0\<rparr>"

text \<open>
  The state in which \<^verbatim>\<open>thread_yield\<close> of a running thread other than the idle thread
  ends: the thread is back in the ready list at the place of its priority, and the front
  of that list has been dispatched.
\<close>

definition yielded :: "'r kstate \<Rightarrow> 'r kstate" where
  "yielded s =
     (let cur = running s;
          rl = list_insert_ordered (ComparePriority s) cur (ready_list s);
          next = hd rl
      in s\<lparr>threads := (threads s)
              (cur := (threads s cur)\<lparr>status := THREAD_READY\<rparr>,
               next := ((threads s)(cur := (threads s cur)\<lparr>status := THREAD_READY\<rparr>)) next
                         \<lparr>status := THREAD_RUNNING\<rparr>),
            ready_list := tl rl,
            running := next,
            thread_ticks := 0,
            intr_get_level := (if next = cur then intr_get_level s else INTR_OFF)\<rparr>)"

text \<open>The front of the ready list has a strictly higher priority than the running thread.\<close>

definition front_outranks :: "'r kstate \<Rightarrow> bool" where
  "front_outranks s \<longleftrightarrow>
     ready_list s \<noteq> [] \<and>
     priority (threads s (hd (ready_list s))) > priority (threads s (running s))"

text \<open>The states differ at most in what a dispatch writes.\<close>

definition dispatch_only :: "'r kstate \<Rightarrow> 'r kstate \<Rightarrow> bool" where
  "dispatch_only s s' \<longleftrightarrow>
     load_avg s' = load_avg s \<and> locks s' = locks s \<and> all_list s' = all_list s \<and>
     sleeping_list s' = sleeping_list s \<and> thread_mlfqs s' = thread_mlfqs s \<and>
     idle_thread s' = idle_thread s \<and>
     (\<forall>t. threads s' t = (threads s t)\<lparr>status := status (threads s' t)\<rparr>)"

subsection \<open>Niceness\<close>

text \<open>
  The running thread's niceness set to \<open>n\<close> and its priority overwritten by the derived
  priority.
\<close>

definition niced :: "'r extern \<Rightarrow> int \<Rightarrow> 'r kstate \<Rightarrow> 'r kstate" where
  "niced e n s =
     upd_thread (running s)
       (\<lambda>th. th\<lparr>nice := n, priority := mlfqs_priority e (recent_cpu th) n\<rparr>) s"

subsection \<open>The per-second recomputation\<close>

text \<open>The number \<^verbatim>\<open>get_ready_threads\<close> returns.\<close>

definition ready_count :: "'r kstate \<Rightarrow> int" where
  "ready_count s = int (length (ready_list s)) + (if running s \<noteq> idle_thread s then 1 else 0)"

text \<open>
  The recurrences of the specification, in the operations of the fixed-point module:
  \<open>load_avg' = (59/60) * load_avg + (1/60) * ready_count\<close> and
  \<open>recent_cpu' = (2 * load_avg / (2 * load_avg + 1)) * recent_cpu + nice\<close>. The code hands
  \<^verbatim>\<open>multiply\<close> the old \<^verbatim>\<open>recent_cpu\<close> first and the coefficient second.
\<close>

definition next_load_avg :: "'r extern \<Rightarrow> 'r \<Rightarrow> int \<Rightarrow> 'r" where
  "next_load_avg e la n =
     add e (multiply e (divide_real e (int_to_real e 59) (int_to_real e 60)) la)
       (multiply e (divide_real e (int_to_real e 1) (int_to_real e 60)) (int_to_real e n))"

definition next_recent_cpu :: "'r extern \<Rightarrow> 'r \<Rightarrow> 'r \<Rightarrow> int \<Rightarrow> 'r" where
  "next_recent_cpu e la rc n =
     add_real_to_int e
       (multiply e rc
          (divide_real e (multiply_by_int e la 2) (add_real_to_int e (multiply_by_int e la 2) 1)))
       n"

text \<open>
  A thread after \<^verbatim>\<open>thread_update_recent_cpu\<close>, and the state after the load average and
  every registered thread have been recomputed.
\<close>

definition recomputed_thread :: "'r extern \<Rightarrow> 'r \<Rightarrow> 'r thread \<Rightarrow> 'r thread" where
  "recomputed_thread e la th =
     th\<lparr>recent_cpu := next_recent_cpu e la (recent_cpu th) (nice th),
        priority := derived_priority e (next_recent_cpu e la (recent_cpu th) (nice th)) (nice th)\<rparr>"

definition recomputed :: "'r extern \<Rightarrow> 'r kstate \<Rightarrow> 'r kstate" where
  "recomputed e s =
     (let la = next_load_avg e (load_avg s) (ready_count s)
      in s\<lparr>load_avg := la,
           threads := (\<lambda>t. if t \<in> set (all_list s) then recomputed_thread e la (threads s t)
                            else threads s t)\<rparr>)"

text \<open>The recomputation of every registered thread's priority stays within \<^verbatim>\<open>int\<close>.\<close>

definition recompute_in_range :: "'r extern \<Rightarrow> 'r kstate \<Rightarrow> bool" where
  "recompute_in_range e s \<longleftrightarrow>
     list_all (\<lambda>t. mlfqs_in_range e
         (next_recent_cpu e (next_load_avg e (load_avg s) (ready_count s))
            (recent_cpu (threads s t)) (nice (threads s t)))
         (nice (threads s t))) (all_list s)"

subsection \<open>Sleeping\<close>

text \<open>
  The sleeping list is in ascending order of wake-up time, links no thread twice and
  links blocked threads only.
\<close>

definition sleep_ok :: "'r kstate \<Rightarrow> bool" where
  "sleep_ok s \<longleftrightarrow>
     sorted_wrt (\<lambda>a b. waik_up_time (threads s a) \<le> waik_up_time (threads s b))
       (sleeping_list s) \<and>
     distinct (sleeping_list s) \<and>
     list_all (\<lambda>t. is_thread s t \<and> status (threads s t) = THREAD_BLOCKED) (sleeping_list s)"

text \<open>
  What a tick at time \<open>now\<close> does to the sleepers of \<open>s\<close>: those whose wake-up time has come
  are ready, in the ready list and off the sleeping list; the others are still blocked
  and on the sleeping list, in their order.
\<close>

definition woken :: "int \<Rightarrow> 'r kstate \<Rightarrow> 'r kstate \<Rightarrow> bool" where
  "woken now s s' \<longleftrightarrow>
     sleeping_list s' = filter (\<lambda>t. now < waik_up_time (threads s t)) (sleeping_list s) \<and>
     list_all (\<lambda>t. if waik_up_time (threads s t) \<le> now
                     then status (threads s' t) = THREAD_READY \<and> t \<in> set (ready_list s') \<and>
                          t \<notin> set (sleeping_list s')
                     else status (threads s' t) = THREAD_BLOCKED \<and> t \<in> set (sleeping_list s'))
       (sleeping_list s)"

subsection \<open>Setting the priority\<close>

text \<open>The running thread with base and effective priority set to \<open>n\<close>.\<close>

definition reprioritised :: "int \<Rightarrow> 'r kstate \<Rightarrow> 'r kstate" where
  "reprioritised n s =
     upd_thread (running s) (\<lambda>th. th\<lparr>real_priority := n, priority := n\<rparr>) s"

subsection \<open>Sequences of operations and the donation invariant\<close>

text \<open>
  The operations the invariants are followed through, and a sequence of them run from a
  state. \<open>Create\<close> carries the priority, the function and the page handed to
  \<^verbatim>\<open>thread_create\<close>; \<open>Donate_to\<close> is \<^verbatim>\<open>thread_donate_priority\<close>, \<open>Recompute\<close> is
  \<^verbatim>\<open>thread_update_priority\<close>, and \<open>Mlfqs_recompute\<close> is
  \<^verbatim>\<open>thread_update_recent_cpu_and_load_avg\<close>.
\<close>

datatype sched_op =
  Create int addr addr | Set_priority int | Donate_to addr | Recompute addr
  | Set_nice int | Mlfqs_recompute

fun apply_op :: "'r extern \<Rightarrow> sched_op \<Rightarrow> 'r kstate \<Rightarrow> 'r kstate option" where
  "apply_op e (Create pri function page) s = map_option snd (thread_create e pri function page s)"
| "apply_op e (Set_priority n) s = thread_set_priority n s"
| "apply_op e (Donate_to t) s = Some (thread_donate_priority t s)"
| "apply_op e (Recompute t) s = Some (thread_update_priority t s)"
| "apply_op e (Set_nice n) s = thread_set_nice e n s"
| "apply_op e Mlfqs_recompute s = thread_update_recent_cpu_and_load_avg e s"

fun run_ops :: "'r extern \<Rightarrow> sched_op list \<Rightarrow> 'r kstate \<Rightarrow> 'r kstate option" where
  "run_ops e [] s = Some s"
| "run_ops e (x # xs) s = (case apply_op e x s of None \<Rightarrow> None | Some s' \<Rightarrow> run_ops e xs s')"

text \<open>
  A thread's effective priority is at least its base priority, and equal to it when the
  thread owns no lock; the invariant asks this of every registered thread.
\<close>

definition donation_ok :: "'r thread \<Rightarrow> bool" where
  "donation_ok th \<longleftrightarrow>
     real_priority th \<le> priority th \<and>
     (Owned_locks th = [] \<longrightarrow> priority th = real_priority th)"

definition priority_inv :: "'r kstate \<Rightarrow> bool" where
  "priority_inv s \<longleftrightarrow> list_all (\<lambda>t. donation_ok (threads s t)) (all_list s)"

text \<open>The operations of the donation scheduler.\<close>

fun donation_op :: "sched_op \<Rightarrow> bool" where
  "donation_op (Create pri function page) = True"
| "donation_op (Set_priority n) = True"
| "donation_op (Donate_to t) = True"
| "donation_op (Recompute t) = True"
| "donation_op (Set_nice n) = False"
| "donation_op Mlfqs_recompute = False"

text \<open>
  A step that leaves the scheduler mode alone, keeps the priorities of the registered
  threads in order where they were, and registers only threads whose priorities are.
\<close>

definition inv_step :: "'r kstate \<Rightarrow> 'r kstate \<Rightarrow> bool" where
  "inv_step s s' \<longleftrightarrow>
     thread_mlfqs s' = thread_mlfqs s \<and>
     (\<forall>t \<in> set (all_list s'). t \<in> set (all_list s) \<and> donation_ok (threads s t) \<longrightarrow>
        donation_ok (threads s' t)) \<and>
     (\<forall>t \<in> set (all_list s'). t \<notin> set (all_list s) \<longrightarrow> donation_ok (threads s' t))"

section \<open>Concrete states\<close>

text \<open>States on which the model is run; their fixed-point numbers are integers.\<close>

text \<open>
  Modelled from the spec: the declarations of threads/thread.h and the fixed-point module,
  which are not part of the sources at hand, for running the model: priorities from 0 to
  63 with default 31, and signed fixed-point numbers with 14 fractional bits, with the
  operations from-integer, to-integer rounded to nearest, add, multiply, divide, scale by
  an integer and add an integer. \<open>c_div\<close> is C's integer division, which truncates.
  No theorem about all parameters depends on this instance.
\<close>

definition c_div :: "int \<Rightarrow> int \<Rightarrow> int" where
  "c_div a b = sgn a * sgn b * (\<bar>a\<bar> div \<bar>b\<bar>)"

definition pintos_extern :: "int extern" where
  "pintos_extern =
     \<lparr>PRI_MIN = 0, PRI_DEFAULT = 31, PRI_MAX = 63, TID_ERROR = - 1, real_zeroed = 0,
      int_to_real = (\<lambda>n. n * 2 ^ 14),
      real_to_int_toward_nearest =
        (\<lambda>x. if x \<ge> 0 then c_div (x + 2 ^ 13) (2 ^ 14) else c_div (x - 2 ^ 13) (2 ^ 14)),
      add = (\<lambda>x y. x + y),
      multiply = (\<lambda>x y. c_div (x * y) (2 ^ 14)),
      divide_real = (\<lambda>x y. c_div (x * 2 ^ 14) y),
      multiply_by_int = (\<lambda>x n. x * n),
      divide_by_int = (\<lambda>x n. c_div x n),
      add_real_to_int = (\<lambda>x n. x + n * 2 ^ 14),
      ComparePriority_allelem = ComparePriority\<rparr>"

definition example_thread :: "thread_status \<Rightarrow> int \<Rightarrow> int thread" where
  "example_thread st pri =
     \<lparr>tid = 0, status = st, priority = pri, magic = THREAD_MAGIC, real_priority = pri,
      Owned_locks = [], Waited_on_lock = 0, nice = 0, recent_cpu = 0, waik_up_time = 0\<rparr>"

definition example_state :: "(addr \<Rightarrow> int thread) \<Rightarrow> int kstate" where
  "example_state ths =
     \<lparr>threads = ths, locks = (\<lambda>_. \<lparr>Waiting_threads_max_priority = 0\<rparr>),
      ready_list = [], all_list = [], sleeping_list = [], idle_thread = 0,
      initial_thread = 5, running = 5, idle_ticks = 0, kernel_ticks = 0, thread_ticks = 0,
      thread_mlfqs = False, load_avg = 0, next_tid = 2, intr_get_level = INTR_OFF,
      intr_context = False, yield_on_return = False, freed = []\<rparr>"

text \<open>Thread 5 runs; threads 2, 3 and 4 are blocked with priorities 10, 30 and 20.\<close>

definition three_blocked :: "int kstate" where
  "three_blocked =
     example_state ((\<lambda>_. example_thread THREAD_RUNNING 31)
       (2 := example_thread THREAD_BLOCKED 10,
        3 := example_thread THREAD_BLOCKED 30,
        4 := example_thread THREAD_BLOCKED 20))"

text \<open>
  Thread 2 (base priority 1) owns lock 10; thread 3 (priority 5) owns lock 11 and waits
  for lock 10; thread 4 (priority 9) waits for lock 11.
\<close>

definition donation_chain :: "int kstate" where
  "donation_chain =
     (example_state ((\<lambda>_. example_thread THREAD_RUNNING 31)
        (2 := (example_thread THREAD_READY 5)\<lparr>real_priority := 1, Owned_locks := [10]\<rparr>,
         3 := (example_thread THREAD_BLOCKED 5)\<lparr>Owned_locks := [11], Waited_on_lock := 10\<rparr>,
         4 := (example_thread THREAD_BLOCKED 9)\<lparr>Waited_on_lock := 11\<rparr>)))
     \<lparr>locks := (\<lambda>_. \<lparr>Waiting_threads_max_priority = 0\<rparr>)
        (10 := \<lparr>Waiting_threads_max_priority = 5\<rparr>,
         11 := \<lparr>Waiting_threads_max_priority = 9\<rparr>)\<rparr>"

text \<open>Thread 2 has used 8 units of CPU time and has niceness 5.\<close>

definition busy_thread :: "int kstate" where
  "busy_thread =
     example_state ((\<lambda>_. example_thread THREAD_RUNNING 31)
       (2 := (example_thread THREAD_READY 63)\<lparr>recent_cpu := 8 * 2 ^ 14, nice := 5\<rparr>))"

text \<open>
  The default scheduler is active. Thread 5 runs with base priority 31, raised to 40 by a
  donation through lock 10; thread 2 is ready with priority 30.
\<close>

definition donated_runner :: "int kstate" where
  "donated_runner =
     (example_state ((\<lambda>_. example_thread THREAD_BLOCKED 0)
        (5 := (example_thread THREAD_RUNNING 40)\<lparr>real_priority := 31, Owned_locks := [10]\<rparr>,
         2 := example_thread THREAD_READY 30)))
     \<lparr>ready_list := [2], all_list := [5, 2], intr_get_level := INTR_ON\<rparr>"

text \<open>
  The feedback scheduler is active with load average 0. Thread 5 runs (niceness 2, recent
  CPU time 4, priority 58); threads 2 (niceness 5, no CPU time) and 3 (niceness 0, CPU
  time 40) are ready with priority 53 each. The ready list and the interrupt context are
  parameters.
\<close>

definition mlfqs_example :: "addr list \<Rightarrow> bool \<Rightarrow> int kstate" where
  "mlfqs_example rl ic =
     (example_state ((\<lambda>_. example_thread THREAD_BLOCKED 0)
        (5 := (example_thread THREAD_RUNNING 58)\<lparr>nice := 2, recent_cpu := 4 * 2 ^ 14\<rparr>,
         2 := (example_thread THREAD_READY 53)\<lparr>nice := 5\<rparr>,
         3 := (example_thread THREAD_READY 53)\<lparr>recent_cpu := 40 * 2 ^ 14\<rparr>)))
     \<lparr>ready_list := rl, all_list := [5, 2, 3], thread_mlfqs := True, idle_thread := 9,
      intr_context := ic\<rparr>"

text \<open>
  Thread 5 runs, thread 2 is ready, and thread 3 sleeps until tick 150.
\<close>

definition sleeper_example :: "int kstate" where
  "sleeper_example =
     (example_state ((\<lambda>_. example_thread THREAD_BLOCKED 0)
        (5 := example_thread THREAD_RUNNING 31,
         2 := example_thread THREAD_READY 31,
         3 := (example_thread THREAD_BLOCKED 31)\<lparr>waik_up_time := 150\<rparr>)))
     \<lparr>ready_list := [2], all_list := [5, 2, 3], sleeping_list := [3]\<rparr>"

text \<open>
  The default scheduler is active. Thread 5 runs with priority 31 and owns no lock; thread
  2 is ready with priority 20.
\<close>

definition lowering_example :: "int kstate" where
  "lowering_example =
     (example_state ((\<lambda>_. example_thread THREAD_BLOCKED 0)
        (5 := example_thread THREAD_RUNNING 31,
         2 := example_thread THREAD_READY 20)))
     \<lparr>ready_list := [2], all_list := [5, 2], intr_get_level := INTR_ON\<rparr>"

text \<open>
  The machine when \<^verbatim>\<open>thread_init\<close> is called: interrupts off, the loader's stack on
  page 5, no thread structure in memory yet; and a sequence of operations run from the
  state in which \<^verbatim>\<open>thread_init\<close> ends.
\<close>

definition loader_state :: "bool \<Rightarrow> int kstate" where
  "loader_state mlfqs =
     \<lparr>threads = (\<lambda>_. \<lparr>tid = 0, status = THREAD_RUNNING, priority = 0, magic = 0,
                       real_priority = 0, Owned_locks = [], Waited_on_lock = 0, nice = 0,
                       recent_cpu = 0, waik_up_time = 0\<rparr>),
      locks = (\<lambda>_. \<lparr>Waiting_threads_max_priority = 0\<rparr>),
      ready_list = [], all_list = [], sleeping_list = [], idle_thread = 0,
      initial_thread = 0, running = 5, idle_ticks = 0, kernel_ticks = 0, thread_ticks = 0,
      thread_mlfqs = mlfqs, load_avg = 0, next_tid = 1, intr_get_level = INTR_OFF,
      intr_context = False, yield_on_return = False, freed = []\<rparr>"

definition run_from_boot :: "bool \<Rightarrow> sched_op list \<Rightarrow> int kstate option" where
  "run_from_boot mlfqs ops =
     (case thread_init pintos_extern (loader_state mlfqs) of
        None \<Rightarrow> None
      | Some s \<Rightarrow> run_ops pintos_extern ops s)"

text \<open>
  Thread 5 runs; thread 3 is ready with priority 7; thread 2 is ready with base priority 1
  and effective priority 5 and owns lock 10, for which a thread of priority 9 waits.
\<close>

definition donation_ready :: "int kstate" where
  "donation_ready =
     (example_state ((\<lambda>_. example_thread THREAD_BLOCKED 0)
        (5 := example_thread THREAD_RUNNING 31,
         2 := (example_thread THREAD_READY 5)\<lparr>real_priority := 1, Owned_locks := [10]\<rparr>,
         3 := example_thread THREAD_READY 7)))
     \<lparr>ready_list := [3, 2], all_list := [5, 2, 3],
      locks := (\<lambda>_. \<lparr>Waiting_threads_max_priority = 0\<rparr>)
        (10 := \<lparr>Waiting_threads_max_priority = 9\<rparr>)\<rparr>"


section \<open>Lists\<close>

lemma set_list_insert_ordered [simp]:
  "set (list_insert_ordered f x xs) = insert x (set xs)"
  by (induction xs) auto

lemma distinct_list_insert_ordered [simp]:
  "distinct (list_insert_ordered f x xs) \<longleftrightarrow> x \<notin> set xs \<and> distinct xs"
  by (induction xs) auto

lemma list_insert_ordered_not_Nil [simp]: "list_insert_ordered f x xs \<noteq> []"
  by (cases xs) auto

lemma sorted_list_insert_ordered:
  fixes key :: "'a \<Rightarrow> int"
  assumes "sorted_wrt (\<lambda>a b. key a \<ge> key b) xs"
  shows "sorted_wrt (\<lambda>a b. key a \<ge> key b) (list_insert_ordered (\<lambda>a b. key a > key b) x xs)"
  using assms by (induction xs) auto

lemma sorted_wrt_hd_max:
  fixes key :: "'a \<Rightarrow> int"
  assumes "sorted_wrt (\<lambda>a b. key a \<ge> key b) xs" and "x \<in> set xs"
  shows "key x \<le> key (hd xs)"
  using assms by (cases xs) auto

lemma ComparePriority_fun:
  "ComparePriority s = (\<lambda>a b. priority (threads s a) > priority (threads s b))"
  by (simp add: ComparePriority_def fun_eq_iff)

section \<open>Unblocking keeps the ready list ordered\<close>

lemma thread_unblock_Some:
  "thread_unblock t s = Some s' \<longleftrightarrow>
     is_thread s t \<and> status (threads s t) = THREAD_BLOCKED \<and>
     s' = s\<lparr>ready_list := list_insert_ordered (ComparePriority s) t (ready_list s),
            threads := (threads s)(t := (threads s t)\<lparr>status := THREAD_READY\<rparr>)\<rparr>"
  by (auto simp: thread_unblock_def ASSERT_def upd_thread_def Let_def ComparePriority_fun
      split: if_splits)

lemma ready_ok_front_is_max: "ready_ok s \<Longrightarrow> front_is_max s"
  unfolding ready_ok_def front_is_max_def list_all_iff
  using sorted_wrt_hd_max [where key = "\<lambda>t. priority (threads s t)"] by blast

lemma thread_unblock_ready_ok:
  assumes "ready_ok s" and "thread_unblock t s = Some s'"
  shows "ready_ok s'"
proof -
  from assms(2) have blocked: "status (threads s t) = THREAD_BLOCKED"
    and s': "s' = s\<lparr>ready_list := list_insert_ordered (ComparePriority s) t (ready_list s),
            threads := (threads s)(t := (threads s t)\<lparr>status := THREAD_READY\<rparr>)\<rparr>"
    by (simp_all add: thread_unblock_Some)
  from assms(1) blocked have notin: "t \<notin> set (ready_list s)"
    by (auto simp: ready_ok_def list_all_iff)
  have pri: "priority (threads s' u) = priority (threads s u)" for u
    by (simp add: s')
  have "sorted_wrt (\<lambda>a b. priority (threads s a) \<ge> priority (threads s b)) (ready_list s')"
    using assms(1) sorted_list_insert_ordered [where key = "\<lambda>t. priority (threads s t)"]
    by (simp add: s' ready_ok_def ComparePriority_fun)
  moreover have "distinct (ready_list s')"
    using assms(1) notin by (simp add: s' ready_ok_def)
  moreover have "list_all (\<lambda>u. status (threads s' u) = THREAD_READY) (ready_list s')"
    using assms(1) by (auto simp: s' ready_ok_def list_all_iff)
  ultimately show ?thesis
    by (simp add: ready_ok_def pri)
qed

lemma thread_unblock_ready_set:
  "thread_unblock t s = Some s' \<Longrightarrow> set (ready_list s') = insert t (set (ready_list s))"
  by (auto simp: thread_unblock_Some)

lemma thread_unblock_blocked_threads:
  assumes "blocked_threads s (t # ts)"
  shows "\<exists>s'. thread_unblock t s = Some s' \<and> blocked_threads s' ts"
  using assms
  by (auto simp: thread_unblock_Some blocked_threads_def list_all_iff is_thread_def)

text \<open>
  Claim C1. From a state whose ready list is in descending order of priority (the empty
  list for one), every sequence of \<^verbatim>\<open>thread_unblock\<close> calls on distinct blocked threads
  goes through, leaves the ready list in descending order of priority, with exactly the
  unblocked threads added, and leaves at its front a thread of the highest priority of
  all threads in the list. The priorities may be distinct or not.
\<close>

theorem C1_unblock_front_is_max:
  assumes "ready_ok s" and "blocked_threads s ts"
  shows "\<exists>s'. unblock_calls ts s = Some s' \<and> ready_ok s' \<and> front_is_max s' \<and>
           set (ready_list s') = set (ready_list s) \<union> set ts"
  using assms
proof (induction ts arbitrary: s)
  case Nil
  then show ?case by (simp add: ready_ok_front_is_max)
next
  case (Cons t ts)
  from thread_unblock_blocked_threads [OF Cons.prems(2)]
  obtain s1 where s1: "thread_unblock t s = Some s1" and rest: "blocked_threads s1 ts"
    by blast
  from Cons.prems(1) s1 have "ready_ok s1" by (rule thread_unblock_ready_ok)
  from Cons.IH [OF this rest] thread_unblock_ready_set [OF s1] s1 show ?case by auto
qed

theorem C1_unblock_front_is_max_witness:
  "ready_ok three_blocked \<and> blocked_threads three_blocked [2, 3, 4] \<and>
   (\<exists>s'. unblock_calls [2, 3, 4] three_blocked = Some s' \<and> ready_list s' = [3, 4, 2] \<and>
      front_is_max s')"
proof -
  have ok: "ready_ok three_blocked"
    by (simp add: ready_ok_def three_blocked_def example_state_def)
  have bl: "blocked_threads three_blocked [2, 3, 4]"
    by (simp add: blocked_threads_def three_blocked_def example_state_def example_thread_def
        is_thread_def)
  have rl: "\<exists>s'. unblock_calls [2, 3, 4] three_blocked = Some s' \<and> ready_list s' = [3, 4, 2]"
    by (simp add: three_blocked_def example_state_def example_thread_def thread_unblock_def
        ASSERT_def is_thread_def upd_thread_def ComparePriority_def)
  from C1_unblock_front_is_max [OF ok bl] rl ok bl show ?thesis by auto
qed

section \<open>Recomputing a donated priority\<close>

lemma lock_cmp_priority_fun:
  "lock_cmp_priority s =
     (\<lambda>a b. Waiting_threads_max_priority (locks s a) > Waiting_threads_max_priority (locks s b))"
  by (simp add: lock_cmp_priority_def fun_eq_iff)

lemma set_foldl_insert_ordered:
  "set (foldl (\<lambda>acc x. list_insert_ordered f x acc) acc xs) = set acc \<union> set xs"
  by (induction xs arbitrary: acc) auto

lemma set_list_sort [simp]: "set (list_sort f xs) = set xs"
  by (simp add: list_sort_def set_foldl_insert_ordered)

lemma sorted_foldl_insert_ordered:
  fixes key :: "'a \<Rightarrow> int"
  assumes "sorted_wrt (\<lambda>a b. key a \<ge> key b) acc"
  shows "sorted_wrt (\<lambda>a b. key a \<ge> key b)
           (foldl (\<lambda>acc x. list_insert_ordered (\<lambda>a b. key a > key b) x acc) acc xs)"
  using assms by (induction xs arbitrary: acc) (auto simp: sorted_list_insert_ordered)

lemma sorted_list_sort:
  fixes key :: "'a \<Rightarrow> int"
  shows "sorted_wrt (\<lambda>a b. key a \<ge> key b) (list_sort (\<lambda>a b. key a > key b) xs)"
  by (simp add: list_sort_def sorted_foldl_insert_ordered)

lemma list_sort_Nil_iff [simp]: "list_sort f xs = [] \<longleftrightarrow> xs = []"
  using set_list_sort [of f xs] by (metis set_empty)

lemma hd_list_sort_Max:
  fixes key :: "'a \<Rightarrow> int"
  assumes "xs \<noteq> []"
  shows "key (hd (list_sort (\<lambda>a b. key a > key b) xs)) = Max (key ` set xs)"
proof (rule sym, rule Max_eqI)
  show "finite (key ` set xs)" by simp
  show "key (hd (list_sort (\<lambda>a b. key a > key b) xs)) \<in> key ` set xs"
    using assms hd_in_set [of "list_sort (\<lambda>a b. key a > key b) xs"] by auto
  fix y assume "y \<in> key ` set xs"
  then obtain x where "x \<in> set (list_sort (\<lambda>a b. key a > key b) xs)" and "y = key x"
    by auto
  with sorted_wrt_hd_max [OF sorted_list_sort [of key xs]]
  show "y \<le> key (hd (list_sort (\<lambda>a b. key a > key b) xs))" by blast
qed

lemma thread_update_priority_priority:
  "priority (threads (thread_update_priority t s) t) = donated_priority s t"
proof (cases "Owned_locks (threads s t) = []")
  case True
  then show ?thesis
    by (simp add: thread_update_priority_def donated_priority_def upd_thread_def Let_def)
next
  case False
  let ?key = "\<lambda>l. Waiting_threads_max_priority (locks s l)"
  have fin: "finite (?key ` set (Owned_locks (threads s t)))"
    and ne: "?key ` set (Owned_locks (threads s t)) \<noteq> {}"
    using False by simp_all
  have "priority (threads (thread_update_priority t s) t) =
      max (real_priority (threads s t)) (?key (hd (list_sort (\<lambda>a b. ?key a > ?key b) (Owned_locks (threads s t)))))"
    using False
    by (simp add: thread_update_priority_def upd_thread_def Let_def lock_cmp_priority_fun max_def)
  also have "\<dots> = max (real_priority (threads s t)) (Max (?key ` set (Owned_locks (threads s t))))"
    using hd_list_sort_Max [OF False, of ?key] by simp
  also have "\<dots> = donated_priority s t"
    using Max_insert [OF fin ne] by (simp add: donated_priority_def)
  finally show ?thesis .
qed

lemma thread_update_priority_others:
  "u \<noteq> t \<Longrightarrow> threads (thread_update_priority t s) u = threads s u"
  by (simp add: thread_update_priority_def upd_thread_def Let_def)

lemma thread_update_priority_locks:
  "locks (thread_update_priority t s) = locks s"
  by (simp add: thread_update_priority_def upd_thread_def Let_def)

lemma thread_update_priority_frame:
  "real_priority (threads (thread_update_priority t s) u) = real_priority (threads s u) \<and>
   set (Owned_locks (threads (thread_update_priority t s) u)) = set (Owned_locks (threads s u))"
  by (simp add: thread_update_priority_def upd_thread_def Let_def)

text \<open>
  Claim C2. \<^verbatim>\<open>thread_update_priority\<close> sets the thread's priority to the greatest of its
  base priority and the \<^verbatim>\<open>Waiting_threads_max_priority\<close> of the locks it owns (the base
  priority when it owns none). It is single-level: no other thread's priority and no
  lock's \<^verbatim>\<open>Waiting_threads_max_priority\<close> changes, so recomputing any other thread gives
  what it gave before. In the chain where thread 2 owns lock 10, thread 3 owns lock 11 and
  waits for lock 10, and thread 4 waits for lock 11, raising thread 3 to 9 leaves thread 2
  at 5, also after thread 2 is recomputed.
\<close>

theorem C2_update_priority_single_level:
  "priority (threads (thread_update_priority t s) t) = donated_priority s t \<and>
   (\<forall>u. u \<noteq> t \<longrightarrow>
      priority (threads (thread_update_priority t s) u) = priority (threads s u) \<and>
      donated_priority (thread_update_priority t s) u = donated_priority s u) \<and>
   (\<forall>l. Waiting_threads_max_priority (locks (thread_update_priority t s) l) =
      Waiting_threads_max_priority (locks s l))"
  by (simp add: thread_update_priority_priority thread_update_priority_others
      thread_update_priority_locks donated_priority_def)

theorem C2_update_priority_single_level_witness:
  "priority (threads donation_chain 3) = 5 \<and>
   priority (threads (thread_update_priority 3 donation_chain) 3) = 9 \<and>
   priority (threads (thread_update_priority 3 donation_chain) 2) = 5 \<and>
   priority (threads (thread_update_priority 2 (thread_update_priority 3 donation_chain)) 2) = 5"
proof -
  have d3: "donated_priority donation_chain 3 = 9"
    and d2: "donated_priority donation_chain 2 = 5"
    and p2: "priority (threads donation_chain 2) = 5"
    and p3: "priority (threads donation_chain 3) = 5"
    by (simp_all add: donated_priority_def donation_chain_def example_state_def
        example_thread_def)
  have ne: "(2::nat) \<noteq> 3" by simp
  from C2_update_priority_single_level [of 3 donation_chain]
       C2_update_priority_single_level [of 2 "thread_update_priority 3 donation_chain"]
       d3 d2 p2 p3 ne
  show ?thesis by simp
qed

section \<open>The derived priority\<close>

lemma thread_update_priority_mlfqs_Some:
  "thread_update_priority_mlfqs e t s = Some s' \<longleftrightarrow>
     mlfqs_in_range e (recent_cpu (threads s t)) (nice (threads s t)) \<and>
     s' = upd_thread t
            (\<lambda>th. th\<lparr>priority :=
               derived_priority e (recent_cpu (threads s t)) (nice (threads s t))\<rparr>) s"
  by (auto simp: thread_update_priority_mlfqs_def mlfqs_in_range_def derived_priority_def
      ASSERT_def Let_def split: if_splits)

lemma derived_priority_mlfqs_priority:
  assumes "PRI_MIN e \<le> PRI_MAX e"
  shows "derived_priority e rc n = mlfqs_priority e rc n"
  using assms by (simp add: derived_priority_def mlfqs_priority_def Let_def max_def min_def)

text \<open>
  Claim C4. Where the arithmetic stays within \<^verbatim>\<open>int\<close>, \<^verbatim>\<open>thread_update_priority_mlfqs\<close>
  sets the thread's priority to \<^verbatim>\<open>PRI_MAX\<close> less the nearest-integer value of
  \<^verbatim>\<open>recent_cpu / 4\<close> less twice its niceness, clamped into the range from \<^verbatim>\<open>PRI_MIN\<close>
  to \<^verbatim>\<open>PRI_MAX\<close>.
\<close>

theorem C4_mlfqs_priority:
  assumes "PRI_MIN e \<le> PRI_MAX e"
    and "mlfqs_in_range e (recent_cpu (threads s t)) (nice (threads s t))"
  shows "\<exists>s'. thread_update_priority_mlfqs e t s = Some s' \<and>
           priority (threads s' t) =
             mlfqs_priority e (recent_cpu (threads s t)) (nice (threads s t)) \<and>
           PRI_MIN e \<le> priority (threads s' t) \<and> priority (threads s' t) \<le> PRI_MAX e"
  using assms
  by (simp add: thread_update_priority_mlfqs_Some derived_priority_mlfqs_priority upd_thread_def)
     (simp add: mlfqs_priority_def)

lemma pintos_extern_simps:
  "PRI_MIN pintos_extern = 0" "PRI_MAX pintos_extern = 63" "PRI_DEFAULT pintos_extern = 31"
  "real_to_int_toward_nearest pintos_extern x =
     (if x \<ge> 0 then c_div (x + 2 ^ 13) (2 ^ 14) else c_div (x - 2 ^ 13) (2 ^ 14))"
  "divide_by_int pintos_extern x n = c_div x n"
  by (simp_all add: pintos_extern_def)

theorem C4_mlfqs_priority_witness:
  "PRI_MIN pintos_extern \<le> PRI_MAX pintos_extern \<and>
   mlfqs_in_range pintos_extern (recent_cpu (threads busy_thread 2)) (nice (threads busy_thread 2)) \<and>
   (\<exists>s'. thread_update_priority_mlfqs pintos_extern 2 busy_thread = Some s' \<and>
      priority (threads s' 2) = 51)"
proof -
  have h1: "PRI_MIN pintos_extern \<le> PRI_MAX pintos_extern"
    by (simp add: pintos_extern_simps)
  have rc: "recent_cpu (threads busy_thread 2) = 131072" "nice (threads busy_thread 2) = 5"
    by (simp_all add: busy_thread_def example_state_def example_thread_def)
  have h2: "mlfqs_in_range pintos_extern (recent_cpu (threads busy_thread 2))
      (nice (threads busy_thread 2))"
    by (simp add: rc mlfqs_in_range_def pintos_extern_simps c_div_def int_range_def)
  have v: "mlfqs_priority pintos_extern (recent_cpu (threads busy_thread 2))
      (nice (threads busy_thread 2)) = 51"
    by (simp add: rc mlfqs_priority_def pintos_extern_simps c_div_def)
  from C4_mlfqs_priority [OF h1 h2] v h1 h2 show ?thesis by auto
qed

section \<open>Dispatch\<close>

lemma thread_current_Some:
  "thread_current s = Some t \<longleftrightarrow>
     t = running s \<and> is_thread s t \<and> status (threads s t) = THREAD_RUNNING"
  by (auto simp: thread_current_def ASSERT_def Let_def split: if_splits)

lemma thread_current_None:
  "thread_current s = None \<longleftrightarrow>
     \<not> (is_thread s (running s) \<and> status (threads s (running s)) = THREAD_RUNNING)"
  by (auto simp: thread_current_def ASSERT_def Let_def split: if_splits)

lemma thread_schedule_tail_Some:
  assumes "prev = 0 \<or> (prev \<noteq> running s \<and> status (threads s prev) \<noteq> THREAD_DYING)"
  shows "thread_schedule_tail prev s = Some s' \<longleftrightarrow>
     intr_get_level s = INTR_OFF \<and> s' = dispatched (running s) s"
  using assms
  by (auto simp: thread_schedule_tail_def ASSERT_def Let_def upd_thread_def dispatched_def)

lemma schedule_Some:
  assumes "status (threads s (running s)) \<noteq> THREAD_DYING"
  shows "schedule s = Some s' \<longleftrightarrow>
     intr_get_level s = INTR_OFF \<and> status (threads s (running s)) \<noteq> THREAD_RUNNING \<and>
     is_thread s (fst (next_thread_to_run s)) \<and>
     s' = dispatched (fst (next_thread_to_run s)) (snd (next_thread_to_run s))"
proof -
  let ?n = "fst (next_thread_to_run s)" and ?s1 = "snd (next_thread_to_run s)"
  have s1: "threads ?s1 = threads s" "running ?s1 = running s"
    "intr_get_level ?s1 = intr_get_level s"
    by (simp_all add: next_thread_to_run_def split: list.splits)
  have it: "is_thread ?s1 ?n = is_thread s ?n"
    by (simp add: is_thread_def s1)
  show ?thesis
  proof (cases "running s = ?n")
    case True
    have "dispatched (running ?s1) ?s1 = dispatched ?n ?s1"
      by (simp add: s1 True [symmetric])
    then show ?thesis
      using True
      by (auto simp: schedule_def Let_def ASSERT_def s1 it thread_schedule_tail_Some)
  next
    case False
    have pre: "running s = 0 \<or> (running s \<noteq> running (?s1\<lparr>running := ?n\<rparr>) \<and>
        status (threads (?s1\<lparr>running := ?n\<rparr>) (running s)) \<noteq> THREAD_DYING)"
      using False assms by (simp add: s1)
    have "dispatched ?n (?s1\<lparr>running := ?n\<rparr>) = dispatched ?n ?s1"
      by (simp add: dispatched_def)
    then show ?thesis
      using False
      by (auto simp: schedule_def Let_def ASSERT_def s1 it thread_schedule_tail_Some [OF pre])
  qed
qed


lemma next_thread_to_run_Cons:
  "ready_list s \<noteq> [] \<Longrightarrow>
   next_thread_to_run s = (hd (ready_list s), s\<lparr>ready_list := tl (ready_list s)\<rparr>)"
  by (cases "ready_list s") (simp_all add: next_thread_to_run_def)

lemma thread_yield_Some:
  assumes "running s \<noteq> idle_thread s"
  shows "thread_yield s = Some s' \<longleftrightarrow>
     is_thread s (running s) \<and> status (threads s (running s)) = THREAD_RUNNING \<and>
     \<not> intr_context s \<and>
     is_thread s (hd (list_insert_ordered (ComparePriority s) (running s) (ready_list s))) \<and>
     s' = yielded s"
proof (cases "thread_current s")
  case None
  then have "\<not> (is_thread s (running s) \<and> status (threads s (running s)) = THREAD_RUNNING)"
    by (simp add: thread_current_None)
  moreover have "thread_yield s = None"
    by (simp add: thread_yield_def None)
  ultimately show ?thesis by auto
next
  case (Some cur)
  then have cur: "cur = running s" and it: "is_thread s (running s)"
    and st: "status (threads s (running s)) = THREAD_RUNNING"
    by (auto simp: thread_current_Some)
  let ?rl = "list_insert_ordered (ComparePriority s) (running s) (ready_list s)"
  define s2 where "s2 = upd_thread (running s) (\<lambda>th. th\<lparr>status := THREAD_READY\<rparr>)
      (s\<lparr>intr_get_level := INTR_OFF, ready_list := ?rl\<rparr>)"
  have s2_simps: "running s2 = running s" "ready_list s2 = ?rl" "intr_get_level s2 = INTR_OFF"
    "threads s2 = (threads s)(running s := (threads s (running s))\<lparr>status := THREAD_READY\<rparr>)"
    by (simp_all add: s2_def upd_thread_def)
  have nd: "status (threads s2 (running s2)) \<noteq> THREAD_DYING"
    by (simp add: s2_simps)
  have ntr: "next_thread_to_run s2 = (hd ?rl, s2\<lparr>ready_list := tl ?rl\<rparr>)"
    using next_thread_to_run_Cons [of s2] by (simp add: s2_simps)
  have it2: "is_thread s2 t = is_thread s t" for t
    by (simp add: is_thread_def s2_simps)
  have y: "thread_yield s =
      (if intr_context s then None
       else Option.bind (schedule s2)
              (\<lambda>s3. Some (if running s3 = running s
                           then s3\<lparr>intr_get_level := intr_get_level s\<rparr> else s3)))"
    using assms
    by (simp add: thread_yield_def Some cur ASSERT_def Let_def s2_def ComparePriority_fun)
  have fin: "(if running (dispatched (hd ?rl) (s2\<lparr>ready_list := tl ?rl\<rparr>)) = running s
              then (dispatched (hd ?rl) (s2\<lparr>ready_list := tl ?rl\<rparr>))
                     \<lparr>intr_get_level := intr_get_level s\<rparr>
              else dispatched (hd ?rl) (s2\<lparr>ready_list := tl ?rl\<rparr>)) = yielded s"
    by (simp add: dispatched_def yielded_def Let_def s2_def upd_thread_def)
  show ?thesis
    using it st fin
    by (auto simp: y schedule_Some [OF nd] ntr it2 s2_simps Option.bind_eq_Some_conv)
qed

lemma dispatch_only_refl [simp]: "dispatch_only s s"
  by (simp add: dispatch_only_def)

lemma thread_try_yeild_Some:
  "thread_try_yeild s = Some s' \<longleftrightarrow>
     (if intr_context s \<or> ready_list s = [] then s' = s
      else is_thread s (running s) \<and> status (threads s (running s)) = THREAD_RUNNING \<and>
           (if front_outranks s then thread_yield s = Some s' else s' = s))"
proof -
  have r: "s\<lparr>intr_get_level := intr_get_level s\<rparr> = s" by simp
  show ?thesis
  proof (cases "thread_current s")
    case None
    then have "\<not> (is_thread s (running s) \<and> status (threads s (running s)) = THREAD_RUNNING)"
      by (simp add: thread_current_None)
    moreover have "thread_current (s\<lparr>intr_get_level := INTR_OFF\<rparr>) = None"
      using None by (simp add: thread_current_def is_thread_def Let_def)
    ultimately show ?thesis
      by (auto simp: thread_try_yeild_def Let_def r)
  next
    case (Some cur)
    then have cur: "cur = running s" "is_thread s (running s)"
      "status (threads s (running s)) = THREAD_RUNNING"
      by (auto simp: thread_current_Some)
    have "thread_current (s\<lparr>intr_get_level := INTR_OFF\<rparr>) = Some (running s)"
      using cur by (simp add: thread_current_Some is_thread_def)
    then show ?thesis
      using cur by (auto simp: thread_try_yeild_def Let_def r front_outranks_def)
  qed
qed

lemma schedule_dispatch_only:
  assumes "schedule s = Some s'"
  shows "dispatch_only s s'"
proof -
  let ?n = "fst (next_thread_to_run s)" and ?s1 = "snd (next_thread_to_run s)"
  have s1: "threads ?s1 = threads s" "load_avg ?s1 = load_avg s" "locks ?s1 = locks s"
    "all_list ?s1 = all_list s" "sleeping_list ?s1 = sleeping_list s"
    "thread_mlfqs ?s1 = thread_mlfqs s" "idle_thread ?s1 = idle_thread s"
    "running ?s1 = running s" "freed ?s1 = freed s" "initial_thread ?s1 = initial_thread s"
    by (simp_all add: next_thread_to_run_def split: list.splits)
  from assms obtain prev s2 where "thread_schedule_tail prev s2 = Some s'"
    and s2: "s2 = ?s1 \<or> s2 = ?s1\<lparr>running := ?n\<rparr>"
    by (auto simp: schedule_def Let_def ASSERT_def split: if_splits)
  then have "dispatch_only s2 s'"
    by (auto simp: thread_schedule_tail_def Let_def ASSERT_def upd_thread_def dispatch_only_def
        split: if_splits)
  with s2 show ?thesis
    by (auto simp: dispatch_only_def s1)
qed

lemma dispatch_only_trans:
  assumes "dispatch_only s s1" and "dispatch_only s1 s2"
  shows "dispatch_only s s2"
proof -
  have "threads s2 t = (threads s t)\<lparr>status := status (threads s2 t)\<rparr>" for t
  proof -
    from assms(1) have a: "threads s1 t = (threads s t)\<lparr>status := status (threads s1 t)\<rparr>"
      unfolding dispatch_only_def by blast
    from assms(2) have b: "threads s2 t = (threads s1 t)\<lparr>status := status (threads s2 t)\<rparr>"
      unfolding dispatch_only_def by blast
    show ?thesis by (subst b, subst a) simp
  qed
  moreover from assms have "load_avg s2 = load_avg s" "locks s2 = locks s"
    "all_list s2 = all_list s" "sleeping_list s2 = sleeping_list s"
    "thread_mlfqs s2 = thread_mlfqs s" "idle_thread s2 = idle_thread s"
    unfolding dispatch_only_def by simp_all
  ultimately show ?thesis
    unfolding dispatch_only_def by blast
qed

lemma thread_yield_dispatch_only:
  assumes "thread_yield s = Some s'"
  shows "dispatch_only s s'"
proof -
  from assms obtain cur where cur: "thread_current s = Some cur"
    by (cases "thread_current s") (simp_all add: thread_yield_def)
  define s1 where "s1 = s\<lparr>intr_get_level := INTR_OFF\<rparr>"
  define s2 where "s2 = upd_thread cur (\<lambda>th. th\<lparr>status := THREAD_READY\<rparr>)
      (if cur \<noteq> idle_thread s1
       then s1\<lparr>ready_list := list_insert_ordered (ComparePriority s1) cur (ready_list s1)\<rparr>
       else s1)"
  have y: "thread_yield s =
      (if intr_context s then None
       else Option.bind (schedule s2)
              (\<lambda>s3. Some (if running s3 = cur
                           then s3\<lparr>intr_get_level := intr_get_level s\<rparr> else s3)))"
    by (simp add: thread_yield_def cur ASSERT_def Let_def s2_def s1_def)
  with assms obtain s3 where sch: "schedule s2 = Some s3"
    and s': "s' = (if running s3 = cur then s3\<lparr>intr_get_level := intr_get_level s\<rparr> else s3)"
    by (cases "schedule s2") (simp_all split: if_splits)
  have "dispatch_only s s2"
    by (simp add: s2_def s1_def dispatch_only_def upd_thread_def)
  moreover have "dispatch_only s2 s3"
    using sch by (rule schedule_dispatch_only)
  moreover have "dispatch_only s3 s'"
    by (simp add: s' dispatch_only_def)
  ultimately show ?thesis
    by (blast intro: dispatch_only_trans)
qed

lemma thread_try_yeild_dispatch_only:
  assumes "thread_try_yeild s = Some s'"
  shows "dispatch_only s s'"
  using assms thread_yield_dispatch_only [of s s']
  by (simp add: thread_try_yeild_Some split: if_splits)

section \<open>Setting the niceness\<close>

lemma dispatch_only_fields:
  assumes "dispatch_only s s'"
  shows "priority (threads s' t) = priority (threads s t)"
    and "nice (threads s' t) = nice (threads s t)"
    and "recent_cpu (threads s' t) = recent_cpu (threads s t)"
    and "real_priority (threads s' t) = real_priority (threads s t)"
    and "Owned_locks (threads s' t) = Owned_locks (threads s t)"
    and "magic (threads s' t) = magic (threads s t)"
    and "waik_up_time (threads s' t) = waik_up_time (threads s t)"
proof -
  from assms obtain st where "threads s' t = (threads s t)\<lparr>status := st\<rparr>"
    unfolding dispatch_only_def by blast
  then show "priority (threads s' t) = priority (threads s t)"
    and "nice (threads s' t) = nice (threads s t)"
    and "recent_cpu (threads s' t) = recent_cpu (threads s t)"
    and "real_priority (threads s' t) = real_priority (threads s t)"
    and "Owned_locks (threads s' t) = Owned_locks (threads s t)"
    and "magic (threads s' t) = magic (threads s t)"
    and "waik_up_time (threads s' t) = waik_up_time (threads s t)"
    by simp_all
qed

lemma thread_set_nice_Some:
  assumes "PRI_MIN e \<le> PRI_MAX e"
  shows "thread_set_nice e n s = Some s' \<longleftrightarrow>
     is_thread s (running s) \<and> status (threads s (running s)) = THREAD_RUNNING \<and>
     mlfqs_in_range e (recent_cpu (threads s (running s))) n \<and>
     thread_try_yeild (niced e n s) = Some s'"
proof (cases "thread_current s")
  case None
  then have "\<not> (is_thread s (running s) \<and> status (threads s (running s)) = THREAD_RUNNING)"
    by (simp add: thread_current_None)
  moreover have "thread_set_nice e n s = None"
    by (simp add: thread_set_nice_def None)
  ultimately show ?thesis by auto
next
  case (Some cur)
  then have cur: "cur = running s" "is_thread s (running s)"
    "status (threads s (running s)) = THREAD_RUNNING"
    by (auto simp: thread_current_Some)
  let ?s1 = "upd_thread (running s) (\<lambda>th. th\<lparr>nice := n\<rparr>) s"
  have s1: "recent_cpu (threads ?s1 (running s)) = recent_cpu (threads s (running s))"
    "nice (threads ?s1 (running s)) = n"
    by (simp_all add: upd_thread_def)
  have eq: "upd_thread (running s)
      (\<lambda>th. th\<lparr>priority := derived_priority e (recent_cpu (threads s (running s))) n\<rparr>) ?s1 =
      niced e n s"
    by (simp add: niced_def upd_thread_def derived_priority_mlfqs_priority [OF assms])
  show ?thesis
    using cur(2,3)
    by (auto simp: thread_set_nice_def Some cur(1) Let_def Option.bind_eq_Some_conv
        thread_update_priority_mlfqs_Some s1 eq)
qed

text \<open>
  Claim C10. \<^verbatim>\<open>thread_set_nice\<close> has no guard on the scheduler mode (no hypothesis
  below mentions \<^verbatim>\<open>thread_mlfqs\<close>): whenever it returns, the running thread's niceness
  is the argument and its priority is the derived priority, whatever priority it held
  before, donated or set. The check for a ready thread of higher priority follows: from
  interrupt context it is skipped and nothing else changes; otherwise the thread yields
  exactly when the front of the ready list has a strictly higher priority.
\<close>

theorem C10_set_nice:
  assumes "PRI_MIN e \<le> PRI_MAX e" and "thread_set_nice e n s = Some s'"
  shows "nice (threads s' (running s)) = n \<and>
    priority (threads s' (running s)) = mlfqs_priority e (recent_cpu (threads s (running s))) n \<and>
    (if intr_context s then s' = niced e n s
     else if front_outranks (niced e n s) then thread_yield (niced e n s) = Some s'
     else s' = niced e n s)"
proof -
  from assms have ty: "thread_try_yeild (niced e n s) = Some s'"
    by (simp add: thread_set_nice_Some)
  then have "dispatch_only (niced e n s) s'"
    by (rule thread_try_yeild_dispatch_only)
  then have "nice (threads s' (running s)) = nice (threads (niced e n s) (running s))"
    and "priority (threads s' (running s)) = priority (threads (niced e n s) (running s))"
    by (simp_all add: dispatch_only_fields)
  moreover have "intr_context (niced e n s) = intr_context s"
    by (simp add: niced_def upd_thread_def)
  ultimately show ?thesis
    using ty by (auto simp: thread_try_yeild_Some niced_def upd_thread_def front_outranks_def
        split: if_splits)
qed


theorem C10_set_nice_witness:
  "PRI_MIN pintos_extern \<le> PRI_MAX pintos_extern \<and> \<not> thread_mlfqs donated_runner \<and>
   priority (threads donated_runner 5) = 40 \<and>
   (\<exists>s'. thread_set_nice pintos_extern 20 donated_runner = Some s' \<and>
      nice (threads s' 5) = 20 \<and> priority (threads s' 5) = 23 \<and> running s' = 2)"
proof -
  have h: "PRI_MIN pintos_extern \<le> PRI_MAX pintos_extern"
    by (simp add: pintos_extern_simps)
  have m: "\<not> thread_mlfqs donated_runner" "priority (threads donated_runner 5) = 40"
    "running donated_runner = 5" "recent_cpu (threads donated_runner 5) = 0"
    "is_thread donated_runner 5" "status (threads donated_runner 5) = THREAD_RUNNING"
    by (simp_all add: donated_runner_def example_state_def example_thread_def is_thread_def)
  have v: "mlfqs_priority pintos_extern 0 20 = 23"
    by (simp add: mlfqs_priority_def pintos_extern_simps c_div_def)
  have r: "mlfqs_in_range pintos_extern 0 20"
    by (simp add: mlfqs_in_range_def pintos_extern_simps c_div_def int_range_def)
  define s1 where "s1 = niced pintos_extern 20 donated_runner"
  have f: "running s1 = 5" "idle_thread s1 = 0" "\<not> intr_context s1" "ready_list s1 = [2]"
    "priority (threads s1 5) = 23" "priority (threads s1 2) = 30" "is_thread s1 5"
    "is_thread s1 2" "status (threads s1 5) = THREAD_RUNNING"
    by (simp_all add: s1_def niced_def upd_thread_def v donated_runner_def example_state_def
        example_thread_def is_thread_def)
  have ne: "running s1 \<noteq> idle_thread s1" by (simp add: f)
  have y: "thread_yield s1 = Some (yielded s1)"
    by (simp add: thread_yield_Some [OF ne] f ComparePriority_def)
  have ty: "thread_try_yeild s1 = Some (yielded s1)"
    by (simp add: thread_try_yeild_Some f front_outranks_def y)
  have s': "thread_set_nice pintos_extern 20 donated_runner = Some (yielded s1)"
    using ty by (simp add: thread_set_nice_Some [OF h] m r s1_def)
  have run: "running (yielded s1) = 2"
    by (simp add: yielded_def Let_def f ComparePriority_def)
  from C10_set_nice [OF h s'] m v run s' h show ?thesis by auto
qed

section \<open>The per-second recomputation\<close>

lemma thread_update_recent_cpu_Some:
  "thread_update_recent_cpu e t s = Some s' \<longleftrightarrow>
     mlfqs_in_range e
       (next_recent_cpu e (load_avg s) (recent_cpu (threads s t)) (nice (threads s t)))
       (nice (threads s t)) \<and>
     s' = upd_thread t (recomputed_thread e (load_avg s)) s"
  by (auto simp: thread_update_recent_cpu_def Let_def thread_update_priority_mlfqs_Some
      upd_thread_def recomputed_thread_def next_recent_cpu_def)

lemma thread_foreach_loop_recent_cpu:
  assumes "distinct ts"
  shows "thread_foreach_loop (thread_update_recent_cpu e) ts s = Some s' \<longleftrightarrow>
     list_all (\<lambda>t. mlfqs_in_range e
         (next_recent_cpu e (load_avg s) (recent_cpu (threads s t)) (nice (threads s t)))
         (nice (threads s t))) ts \<and>
     s' = s\<lparr>threads := (\<lambda>t. if t \<in> set ts then recomputed_thread e (load_avg s) (threads s t)
                               else threads s t)\<rparr>"
  using assms
proof (induction ts arbitrary: s)
  case Nil
  then show ?case by auto
next
  case (Cons t ts)
  from Cons.prems have d: "distinct ts" and notin: "t \<notin> set ts" by simp_all
  let ?s1 = "upd_thread t (recomputed_thread e (load_avg s)) s"
  have same: "list_all (\<lambda>u. mlfqs_in_range e
         (next_recent_cpu e (load_avg ?s1) (recent_cpu (threads ?s1 u)) (nice (threads ?s1 u)))
         (nice (threads ?s1 u))) ts =
      list_all (\<lambda>u. mlfqs_in_range e
         (next_recent_cpu e (load_avg s) (recent_cpu (threads s u)) (nice (threads s u)))
         (nice (threads s u))) ts"
    using notin by (auto simp: list_all_iff upd_thread_def)
  have upd: "?s1\<lparr>threads := (\<lambda>u. if u \<in> set ts
        then recomputed_thread e (load_avg ?s1) (threads ?s1 u) else threads ?s1 u)\<rparr> =
      s\<lparr>threads := (\<lambda>u. if u \<in> set (t # ts)
        then recomputed_thread e (load_avg s) (threads s u) else threads s u)\<rparr>"
    using notin by (auto simp: upd_thread_def fun_eq_iff)
  show ?case
  proof (cases "thread_update_recent_cpu e t s")
    case None
    then have "\<not> mlfqs_in_range e
        (next_recent_cpu e (load_avg s) (recent_cpu (threads s t)) (nice (threads s t)))
        (nice (threads s t))"
      using thread_update_recent_cpu_Some [of e t s] by auto
    with None show ?thesis by simp
  next
    case (Some s1)
    then have r: "mlfqs_in_range e
        (next_recent_cpu e (load_avg s) (recent_cpu (threads s t)) (nice (threads s t)))
        (nice (threads s t))" and s1: "s1 = ?s1"
      by (simp_all add: thread_update_recent_cpu_Some)
    show ?thesis
      using Cons.IH [OF d, of ?s1] r
      by (simp add: Some s1 same upd)
  qed
qed

lemma recompute_Some_iff:
  assumes "distinct (all_list s)"
  shows "thread_update_recent_cpu_and_load_avg e s = Some s' \<longleftrightarrow>
     is_thread s (running s) \<and> status (threads s (running s)) = THREAD_RUNNING \<and>
     intr_get_level s = INTR_OFF \<and> recompute_in_range e s \<and>
     thread_try_yeild (recomputed e s) = Some s'"
proof (cases "thread_current s")
  case None
  then have "\<not> (is_thread s (running s) \<and> status (threads s (running s)) = THREAD_RUNNING)"
    by (simp add: thread_current_None)
  moreover have "thread_update_recent_cpu_and_load_avg e s = None"
    by (simp add: thread_update_recent_cpu_and_load_avg_def get_ready_threads_def None)
  ultimately show ?thesis by auto
next
  case (Some cur)
  then have c: "cur = running s" and ok: "is_thread s (running s)"
    "status (threads s (running s)) = THREAD_RUNNING"
    by (auto simp: thread_current_Some)
  define s1 where "s1 = s\<lparr>load_avg := next_load_avg e (load_avg s) (ready_count s)\<rparr>"
  have u: "thread_update_recent_cpu_and_load_avg e s =
      Option.bind (thread_foreach (thread_update_recent_cpu e) s1) thread_try_yeild"
    by (simp add: thread_update_recent_cpu_and_load_avg_def get_ready_threads_def Some c
        Let_def s1_def next_load_avg_def ready_count_def)
  have s1: "all_list s1 = all_list s" "threads s1 = threads s"
    "load_avg s1 = next_load_avg e (load_avg s) (ready_count s)"
    "intr_get_level s1 = intr_get_level s"
    by (simp_all add: s1_def)
  have r: "s1\<lparr>threads := (\<lambda>t. if t \<in> set (all_list s)
        then recomputed_thread e (load_avg s1) (threads s1 t)
        else threads s1 t)\<rparr> = recomputed e s"
    by (simp add: s1_def recomputed_def Let_def cong: if_cong)
  have fe: "thread_foreach (thread_update_recent_cpu e) s1 = Some s2 \<longleftrightarrow>
      intr_get_level s = INTR_OFF \<and> recompute_in_range e s \<and> s2 = recomputed e s" for s2
    using assms
    by (auto simp: thread_foreach_def ASSERT_def thread_foreach_loop_recent_cpu s1(1,3,4) r
        recompute_in_range_def s1(2))
  show ?thesis
    using ok by (auto simp: u Option.bind_eq_Some_conv fe)
qed

lemma recompute_Some:
  assumes "distinct (all_list s)"
    and "thread_update_recent_cpu_and_load_avg e s = Some s'"
  shows "thread_try_yeild (recomputed e s) = Some s'"
  using assms by (simp add: recompute_Some_iff)

text \<open>
  Claim C3. Whenever the per-second recomputation returns, the load average is
  \<open>(59/60) * load_avg + (1/60) * ready_count\<close>, where \<open>ready_count\<close> is the length of the
  ready list plus one if the running thread is not the idle thread, and every registered
  thread's \<^verbatim>\<open>recent_cpu\<close> is \<open>(2 * load_avg / (2 * load_avg + 1)) * recent_cpu + nice\<close>
  with the load average just computed; each operation is the fixed-point module's.
\<close>

theorem C3_recent_cpu_and_load_avg:
  assumes "distinct (all_list s)"
    and "thread_update_recent_cpu_and_load_avg e s = Some s'"
  shows "load_avg s' = next_load_avg e (load_avg s) (ready_count s) \<and>
    (\<forall>t \<in> set (all_list s).
       recent_cpu (threads s' t) =
         next_recent_cpu e (load_avg s') (recent_cpu (threads s t)) (nice (threads s t)))"
proof -
  from assms have "thread_try_yeild (recomputed e s) = Some s'"
    by (rule recompute_Some)
  then have d: "dispatch_only (recomputed e s) s'"
    by (rule thread_try_yeild_dispatch_only)
  then have la: "load_avg s' = load_avg (recomputed e s)"
    by (simp add: dispatch_only_def)
  have rc: "recent_cpu (threads s' t) = recent_cpu (threads (recomputed e s) t)" for t
    using d by (rule dispatch_only_fields)
  show ?thesis
    by (simp add: la rc) (simp add: recomputed_def Let_def recomputed_thread_def)
qed

text \<open>
  Claim C8, amended. After the per-second recomputation has updated every registered
  thread's \<^verbatim>\<open>recent_cpu\<close> and priority, the check for a ready thread of higher priority
  is evaluated: outside interrupt context the running thread yields exactly when the
  front of the ready list has a strictly higher priority, and nothing else happens
  otherwise; in interrupt context the check is skipped.
\<close>

theorem C8_recompute_then_check:
  assumes "distinct (all_list s)"
    and "thread_update_recent_cpu_and_load_avg e s = Some s'"
  shows "if intr_context s then s' = recomputed e s
     else if front_outranks (recomputed e s) then thread_yield (recomputed e s) = Some s'
     else s' = recomputed e s"
proof -
  from assms have "thread_try_yeild (recomputed e s) = Some s'"
    by (rule recompute_Some)
  moreover have "intr_context (recomputed e s) = intr_context s"
    by (simp add: recomputed_def Let_def)
  ultimately show ?thesis
    by (auto simp: thread_try_yeild_Some front_outranks_def split: if_splits)
qed


lemma mlfqs_example_simps:
  "running (mlfqs_example rl ic) = 5" "idle_thread (mlfqs_example rl ic) = 9"
  "ready_list (mlfqs_example rl ic) = rl" "all_list (mlfqs_example rl ic) = [5, 2, 3]"
  "intr_context (mlfqs_example rl ic) = ic" "intr_get_level (mlfqs_example rl ic) = INTR_OFF"
  "load_avg (mlfqs_example rl ic) = 0" "is_thread (mlfqs_example rl ic) 5"
  "status (threads (mlfqs_example rl ic) 5) = THREAD_RUNNING"
  "recent_cpu (threads (mlfqs_example rl ic) 5) = 65536" "nice (threads (mlfqs_example rl ic) 5) = 2"
  "recent_cpu (threads (mlfqs_example rl ic) 2) = 0" "nice (threads (mlfqs_example rl ic) 2) = 5"
  "recent_cpu (threads (mlfqs_example rl ic) 3) = 655360" "nice (threads (mlfqs_example rl ic) 3) = 0"
  by (simp_all add: mlfqs_example_def example_state_def example_thread_def is_thread_def)

lemma pintos_next_load_avg: "next_load_avg pintos_extern 0 3 = 819"
  by (simp add: next_load_avg_def pintos_extern_def c_div_def)

lemma pintos_next_recent_cpu:
  "next_recent_cpu pintos_extern 819 65536 2 = 38724"
  "next_recent_cpu pintos_extern 819 0 5 = 81920"
  "next_recent_cpu pintos_extern 819 655360 0 = 59560"
  by (simp_all add: next_recent_cpu_def pintos_extern_def c_div_def)

lemma pintos_derived_priority:
  "derived_priority pintos_extern 38724 2 = 58"
  "derived_priority pintos_extern 81920 5 = 52"
  "derived_priority pintos_extern 59560 0 = 62"
  by (simp_all add: derived_priority_def pintos_extern_def c_div_def)

lemma pintos_in_range:
  "mlfqs_in_range pintos_extern 38724 2"
  "mlfqs_in_range pintos_extern 81920 5"
  "mlfqs_in_range pintos_extern 59560 0"
  by (simp_all add: mlfqs_in_range_def pintos_extern_def c_div_def int_range_def)

lemma recomputed_mlfqs_example:
  "ready_list (recomputed pintos_extern (mlfqs_example rl ic)) = rl"
  "running (recomputed pintos_extern (mlfqs_example rl ic)) = 5"
  "intr_context (recomputed pintos_extern (mlfqs_example rl ic)) = ic"
  "length rl = 2 \<Longrightarrow> load_avg (recomputed pintos_extern (mlfqs_example rl ic)) = 819"
  "length rl = 2 \<Longrightarrow> priority (threads (recomputed pintos_extern (mlfqs_example rl ic)) 5) = 58"
  "length rl = 2 \<Longrightarrow> priority (threads (recomputed pintos_extern (mlfqs_example rl ic)) 2) = 52"
  "length rl = 2 \<Longrightarrow> priority (threads (recomputed pintos_extern (mlfqs_example rl ic)) 3) = 62"
  "length rl = 2 \<Longrightarrow> recent_cpu (threads (recomputed pintos_extern (mlfqs_example rl ic)) 5) = 38724"
  "length rl = 2 \<Longrightarrow> recent_cpu (threads (recomputed pintos_extern (mlfqs_example rl ic)) 2) = 81920"
  "length rl = 2 \<Longrightarrow> recent_cpu (threads (recomputed pintos_extern (mlfqs_example rl ic)) 3) = 59560"
  "is_thread (recomputed pintos_extern (mlfqs_example rl ic)) 5"
  "status (threads (recomputed pintos_extern (mlfqs_example rl ic)) 5) = THREAD_RUNNING"
  by (simp_all add: recomputed_def Let_def ready_count_def mlfqs_example_simps
      recomputed_thread_def pintos_next_load_avg pintos_next_recent_cpu pintos_derived_priority
      is_thread_def)
     (simp_all add: mlfqs_example_def example_state_def example_thread_def)

lemma recompute_in_range_mlfqs_example:
  "length rl = 2 \<Longrightarrow> recompute_in_range pintos_extern (mlfqs_example rl ic)"
  by (simp add: recompute_in_range_def ready_count_def mlfqs_example_simps
      pintos_next_load_avg pintos_next_recent_cpu pintos_in_range)

lemma recompute_thread_2_in_front:
  "thread_update_recent_cpu_and_load_avg pintos_extern (mlfqs_example [2, 3] False) =
     Some (recomputed pintos_extern (mlfqs_example [2, 3] False))"
  by (simp add: recompute_Some_iff mlfqs_example_simps recompute_in_range_mlfqs_example
      thread_try_yeild_Some recomputed_mlfqs_example front_outranks_def)

lemma recompute_in_interrupt:
  "thread_update_recent_cpu_and_load_avg pintos_extern (mlfqs_example [3, 2] True) =
     Some (recomputed pintos_extern (mlfqs_example [3, 2] True))"
  by (simp add: recompute_Some_iff mlfqs_example_simps recompute_in_range_mlfqs_example
      thread_try_yeild_Some recomputed_mlfqs_example front_outranks_def)


lemma recompute_thread_3_in_front:
  "thread_update_recent_cpu_and_load_avg pintos_extern (mlfqs_example [3, 2] False) =
     Some (yielded (recomputed pintos_extern (mlfqs_example [3, 2] False)))"
proof -
  let ?s = "recomputed pintos_extern (mlfqs_example [3, 2] False)"
  have i3: "is_thread ?s 3"
    by (simp add: recomputed_def Let_def is_thread_def recomputed_thread_def)
       (simp add: mlfqs_example_def example_state_def example_thread_def)
  have idle: "idle_thread ?s = 9"
    by (simp add: recomputed_def Let_def mlfqs_example_simps)
  have ne: "running ?s \<noteq> idle_thread ?s"
    by (simp add: recomputed_mlfqs_example idle)
  have "thread_yield ?s = Some (yielded ?s)"
    by (simp add: thread_yield_Some [OF ne] recomputed_mlfqs_example ComparePriority_def i3)
  then show ?thesis
    by (simp add: recompute_Some_iff mlfqs_example_simps recompute_in_range_mlfqs_example
      thread_try_yeild_Some recomputed_mlfqs_example front_outranks_def)
qed

theorem C3_recent_cpu_and_load_avg_witness:
  "distinct (all_list (mlfqs_example [2, 3] False)) \<and>
   (\<exists>s'. thread_update_recent_cpu_and_load_avg pintos_extern (mlfqs_example [2, 3] False) = Some s' \<and>
      load_avg s' = 819 \<and> recent_cpu (threads s' 5) = 38724 \<and>
      recent_cpu (threads s' 2) = 81920 \<and> recent_cpu (threads s' 3) = 59560)"
proof -
  have d: "distinct (all_list (mlfqs_example [2, 3] False))"
    by (simp add: mlfqs_example_simps)
  have rc: "ready_count (mlfqs_example [2, 3] False) = 3"
    by (simp add: ready_count_def mlfqs_example_simps)
  from C3_recent_cpu_and_load_avg [OF d recompute_thread_2_in_front] d recompute_thread_2_in_front show ?thesis
    by (simp add: mlfqs_example_simps rc pintos_next_load_avg pintos_next_recent_cpu)
qed

theorem C8_recompute_then_check_witness:
  "distinct (all_list (mlfqs_example [3, 2] False)) \<and>
   \<not> intr_context (mlfqs_example [3, 2] False) \<and>
   front_outranks (recomputed pintos_extern (mlfqs_example [3, 2] False)) \<and>
   (\<exists>s'. thread_update_recent_cpu_and_load_avg pintos_extern (mlfqs_example [3, 2] False) = Some s' \<and>
      thread_yield (recomputed pintos_extern (mlfqs_example [3, 2] False)) = Some s' \<and>
      running s' = 3 \<and> ready_list s' = [5, 2])"
proof -
  let ?s = "recomputed pintos_extern (mlfqs_example [3, 2] False)"
  have d: "distinct (all_list (mlfqs_example [3, 2] False))"
    and ni: "\<not> intr_context (mlfqs_example [3, 2] False)"
    by (simp_all add: mlfqs_example_simps)
  have fo: "front_outranks ?s"
    by (simp add: front_outranks_def recomputed_mlfqs_example)
  have r: "running (yielded ?s) = 3" "ready_list (yielded ?s) = [5, 2]"
    by (simp_all add: yielded_def Let_def recomputed_mlfqs_example ComparePriority_def)
  from C8_recompute_then_check [OF d recompute_thread_3_in_front] d ni fo r recompute_thread_3_in_front show ?thesis
    by simp
qed

text \<open>
  Claim C8 as stated fails. With the ready list holding thread 2 before thread 3, the
  recomputation leaves the list as it was while the priorities become 52 and 62: the
  list is not in the order of the current priorities and its front is not a maximum. With
  thread 3 in front and the call made from interrupt context, the front outranks the
  running thread afterwards, and the running thread has not yielded.
\<close>

theorem C8_recompute_counterexample:
  "thread_update_recent_cpu_and_load_avg pintos_extern (mlfqs_example [2, 3] False) \<noteq> None \<and>
   ready_list (the (thread_update_recent_cpu_and_load_avg pintos_extern
     (mlfqs_example [2, 3] False))) = [2, 3] \<and>
   priority (threads (the (thread_update_recent_cpu_and_load_avg pintos_extern
     (mlfqs_example [2, 3] False))) 2) = 52 \<and>
   priority (threads (the (thread_update_recent_cpu_and_load_avg pintos_extern
     (mlfqs_example [2, 3] False))) 3) = 62 \<and>
   \<not> front_is_max (the (thread_update_recent_cpu_and_load_avg pintos_extern
     (mlfqs_example [2, 3] False))) \<and>
   thread_update_recent_cpu_and_load_avg pintos_extern (mlfqs_example [3, 2] True) \<noteq> None \<and>
   front_outranks (the (thread_update_recent_cpu_and_load_avg pintos_extern
     (mlfqs_example [3, 2] True))) \<and>
   running (the (thread_update_recent_cpu_and_load_avg pintos_extern
     (mlfqs_example [3, 2] True))) = running (mlfqs_example [3, 2] True) \<and>
   ready_list (the (thread_update_recent_cpu_and_load_avg pintos_extern
     (mlfqs_example [3, 2] True))) = [3, 2]"
  by (simp add: recompute_thread_2_in_front recompute_in_interrupt recomputed_mlfqs_example front_is_max_def front_outranks_def
      mlfqs_example_simps)

section \<open>Sleeping and waking\<close>

lemma thread_tick_loop_sorted:
  assumes "sorted_wrt (\<lambda>a b. waik_up_time (threads s a) \<le> waik_up_time (threads s b)) xs"
    and "distinct xs"
    and "list_all (\<lambda>t. is_thread s t \<and> status (threads s t) = THREAD_BLOCKED) xs"
    and "sleeping_list s = xs"
  shows "\<exists>s'. thread_tick_loop now xs s = Some s' \<and>
     sleeping_list s' = filter (\<lambda>t. now < waik_up_time (threads s t)) xs \<and>
     threads s' = (\<lambda>t. if t \<in> set xs \<and> waik_up_time (threads s t) \<le> now
                         then (threads s t)\<lparr>status := THREAD_READY\<rparr> else threads s t) \<and>
     set (ready_list s') = set (ready_list s) \<union> {t \<in> set xs. waik_up_time (threads s t) \<le> now} \<and>
     thread_ticks s' = thread_ticks s"
  using assms
proof (induction xs arbitrary: s)
  case Nil
  then show ?case by simp
next
  case (Cons x xs)
  show ?case
  proof (cases "now < waik_up_time (threads s x)")
    case True
    with Cons.prems(1) have "\<forall>t \<in> set (x # xs). now < waik_up_time (threads s t)"
      by auto
    then have "filter (\<lambda>t. now < waik_up_time (threads s t)) (x # xs) = x # xs"
      and "\<And>t. t \<in> set (x # xs) \<Longrightarrow> \<not> waik_up_time (threads s t) \<le> now"
      by (simp_all add: filter_id_conv) force
    with True Cons.prems(4) show ?thesis
      by (auto simp: fun_eq_iff)
  next
    case False
    from Cons.prems(3) obtain s1 where u: "thread_unblock x s = Some s1"
      by (auto simp: thread_unblock_Some)
    then have s1: "s1 = s\<lparr>ready_list := list_insert_ordered (ComparePriority s) x (ready_list s),
            threads := (threads s)(x := (threads s x)\<lparr>status := THREAD_READY\<rparr>)\<rparr>"
      by (simp add: thread_unblock_Some)
    let ?s2 = "s1\<lparr>sleeping_list := remove1 x (sleeping_list s1)\<rparr>"
    from Cons.prems(2) have notin: "x \<notin> set xs" and d: "distinct xs" by simp_all
    have w: "waik_up_time (threads ?s2 t) = waik_up_time (threads s t)"
      and w1: "waik_up_time (threads s1 t) = waik_up_time (threads s t)" for t
      by (simp_all add: s1)
    have sl: "sleeping_list ?s2 = xs"
      using Cons.prems(4) by (simp add: s1)
    have so: "sorted_wrt (\<lambda>a b. waik_up_time (threads ?s2 a) \<le> waik_up_time (threads ?s2 b)) xs"
      using Cons.prems(1) by (simp add: w1)
    have bl: "list_all (\<lambda>t. is_thread ?s2 t \<and> status (threads ?s2 t) = THREAD_BLOCKED) xs"
      using Cons.prems(3) notin by (auto simp: list_all_iff s1 is_thread_def)
    from Cons.IH [OF so d bl sl] obtain s' where
      run: "thread_tick_loop now xs ?s2 = Some s'"
      and r1: "sleeping_list s' = filter (\<lambda>t. now < waik_up_time (threads ?s2 t)) xs"
      and r2: "threads s' = (\<lambda>t. if t \<in> set xs \<and> waik_up_time (threads ?s2 t) \<le> now
                         then (threads ?s2 t)\<lparr>status := THREAD_READY\<rparr> else threads ?s2 t)"
      and r3: "set (ready_list s') =
          set (ready_list ?s2) \<union> {t \<in> set xs. waik_up_time (threads ?s2 t) \<le> now}"
      and r4: "thread_ticks s' = thread_ticks ?s2"
      by blast
    have "thread_tick_loop now (x # xs) s = Some s'"
      using False u run by simp
    moreover have "sleeping_list s' = filter (\<lambda>t. now < waik_up_time (threads s t)) (x # xs)"
      using False by (simp add: r1 w1)
    moreover have "threads s' = (\<lambda>t. if t \<in> set (x # xs) \<and> waik_up_time (threads s t) \<le> now
                         then (threads s t)\<lparr>status := THREAD_READY\<rparr> else threads s t)"
      using False notin by (auto simp: r2 w1 fun_eq_iff) (auto simp: s1)
    moreover have "set (ready_list s') =
        set (ready_list s) \<union> {t \<in> set (x # xs). waik_up_time (threads s t) \<le> now}"
      using False by (auto simp: r3 w1) (auto simp: s1)
    moreover have "thread_ticks s' = thread_ticks s"
      by (simp add: r4 s1)
    ultimately show ?thesis by blast
  qed
qed

lemma thread_tick_woken:
  assumes "sleep_ok s" and "is_thread s (running s)"
    and "status (threads s (running s)) = THREAD_RUNNING"
  shows "\<exists>s'. thread_tick now s = Some s' \<and> woken now s s' \<and> sleep_ok s'"
proof -
  let ?s0 = "if running s = idle_thread s then s\<lparr>idle_ticks := idle_ticks s + 1\<rparr>
             else s\<lparr>kernel_ticks := kernel_ticks s + 1\<rparr>"
  have s0: "threads ?s0 = threads s" "sleeping_list ?s0 = sleeping_list s"
    "ready_list ?s0 = ready_list s"
    by simp_all
  have cur: "thread_current s = Some (running s)"
    using assms(2,3) by (simp add: thread_current_Some)
  from assms(1) have pre:
    "sorted_wrt (\<lambda>a b. waik_up_time (threads ?s0 a) \<le> waik_up_time (threads ?s0 b))
       (sleeping_list s)"
    "distinct (sleeping_list s)"
    "list_all (\<lambda>t. is_thread ?s0 t \<and> status (threads ?s0 t) = THREAD_BLOCKED) (sleeping_list s)"
    "sleeping_list ?s0 = sleeping_list s"
    by (simp_all add: sleep_ok_def is_thread_def)
  from thread_tick_loop_sorted [OF pre, of now] obtain s1 where
    run: "thread_tick_loop now (sleeping_list s) ?s0 = Some s1"
    and r1: "sleeping_list s1 = filter (\<lambda>t. now < waik_up_time (threads s t)) (sleeping_list s)"
    and r2: "threads s1 = (\<lambda>t. if t \<in> set (sleeping_list s) \<and> waik_up_time (threads s t) \<le> now
                         then (threads s t)\<lparr>status := THREAD_READY\<rparr> else threads s t)"
    and r3: "set (ready_list s1) =
        set (ready_list s) \<union> {t \<in> set (sleeping_list s). waik_up_time (threads s t) \<le> now}"
    unfolding s0 by blast
  define s2 where "s2 = s1\<lparr>thread_ticks := (thread_ticks s1 + 1) mod 2 ^ 32\<rparr>"
  define s' where "s' = (if thread_ticks s2 \<ge> TIME_SLICE then s2\<lparr>yield_on_return := True\<rparr> else s2)"
  have t: "thread_tick now s = Some s'"
    using run by (simp add: thread_tick_def cur Let_def s'_def s2_def s0)
  have f: "threads s' = threads s1" "sleeping_list s' = sleeping_list s1"
    "ready_list s' = ready_list s1"
    by (simp_all add: s'_def s2_def)
  have w: "woken now s s'"
    using assms(1)
    by (auto simp: woken_def f r1 r2 r3 list_all_iff sleep_ok_def)
  have wk: "waik_up_time (threads s' t) = waik_up_time (threads s t)"
    and mg: "magic (threads s' t) = magic (threads s t)" for t
    by (simp_all add: f r2)
  have "sorted_wrt (\<lambda>a b. waik_up_time (threads s' a) \<le> waik_up_time (threads s' b))
      (sleeping_list s')"
    using assms(1) by (simp add: wk f(2) r1 sleep_ok_def sorted_wrt_filter)
  moreover have "distinct (sleeping_list s')"
    using assms(1) by (simp add: f r1 sleep_ok_def)
  moreover have "list_all (\<lambda>t. is_thread s' t \<and> status (threads s' t) = THREAD_BLOCKED)
      (sleeping_list s')"
    using assms(1) by (auto simp: f r1 sleep_ok_def list_all_iff is_thread_def r2)
  ultimately have "sleep_ok s'"
    by (simp add: sleep_ok_def)
  with t w show ?thesis by blast
qed


lemma sorted_list_insert_ordered_asc:
  fixes key :: "'a \<Rightarrow> int"
  assumes "sorted_wrt (\<lambda>a b. key a \<le> key b) xs"
  shows "sorted_wrt (\<lambda>a b. key a \<le> key b) (list_insert_ordered (\<lambda>a b. key a < key b) x xs)"
  using assms by (induction xs) auto

lemma thread_less_waik_fun:
  "thread_less_waik s = (\<lambda>a b. waik_up_time (threads s a) < waik_up_time (threads s b))"
  by (simp add: thread_less_waik_def fun_eq_iff)

lemma thread_block_Some:
  "thread_block s = Some s' \<longleftrightarrow>
     \<not> intr_context s \<and> intr_get_level s = INTR_OFF \<and>
     is_thread s (running s) \<and> status (threads s (running s)) = THREAD_RUNNING \<and>
     is_thread s (fst (next_thread_to_run s)) \<and>
     s' = dispatched (fst (next_thread_to_run s))
            (snd (next_thread_to_run
               (upd_thread (running s) (\<lambda>th. th\<lparr>status := THREAD_BLOCKED\<rparr>) s)))"
proof (cases "thread_current s")
  case None
  then have "\<not> (is_thread s (running s) \<and> status (threads s (running s)) = THREAD_RUNNING)"
    by (simp add: thread_current_None)
  moreover have "thread_block s = None"
    by (simp add: thread_block_def None ASSERT_def)
  ultimately show ?thesis by auto
next
  case (Some cur)
  then have c: "cur = running s" and ok: "is_thread s (running s)"
    "status (threads s (running s)) = THREAD_RUNNING"
    by (auto simp: thread_current_Some)
  let ?s1 = "upd_thread (running s) (\<lambda>th. th\<lparr>status := THREAD_BLOCKED\<rparr>) s"
  have nd: "status (threads ?s1 (running ?s1)) \<noteq> THREAD_DYING"
    by (simp add: upd_thread_def)
  have f: "fst (next_thread_to_run ?s1) = fst (next_thread_to_run s)"
    by (simp add: next_thread_to_run_def upd_thread_def split: list.splits)
  have i: "is_thread ?s1 t = is_thread s t" for t
    by (simp add: is_thread_def upd_thread_def)
  have "status (threads ?s1 (running ?s1)) \<noteq> THREAD_RUNNING"
    "intr_get_level ?s1 = intr_get_level s"
    by (simp_all add: upd_thread_def)
  then show ?thesis
    using ok
    by (auto simp: thread_block_def Some c ASSERT_def schedule_Some [OF nd] f i)
qed

lemma thread_sleep_sleep_ok:
  assumes "sleep_ok s" and "thread_sleep ticks current_time s = Some s'"
    and "fst (next_thread_to_run s) \<notin> insert (running s) (set (sleeping_list s))"
  shows "sleep_ok s' \<and> running s \<in> set (sleeping_list s') \<and>
     waik_up_time (threads s' (running s)) = current_time + ticks \<and>
     status (threads s' (running s)) = THREAD_BLOCKED"
proof -
  let ?cur = "running s" and ?n = "fst (next_thread_to_run s)"
  from assms(2) obtain cur where "thread_current s = Some cur"
    by (cases "thread_current s") (simp_all add: thread_sleep_def Let_def ASSERT_def split: if_splits)
  then have cur: "thread_current s = Some ?cur" and ok: "is_thread s ?cur"
    "status (threads s ?cur) = THREAD_RUNNING"
    by (auto simp: thread_current_Some)
  define s1 where "s1 = upd_thread ?cur (\<lambda>th. th\<lparr>waik_up_time := current_time + ticks\<rparr>) s"
  define s2 where "s2 = s1\<lparr>sleeping_list :=
      list_insert_ordered (thread_less_waik s1) ?cur (sleeping_list s1)\<rparr>"
  have cur1: "thread_current s1 = Some ?cur"
    using ok by (simp add: thread_current_Some s1_def upd_thread_def is_thread_def)
  from assms(2) have tb: "thread_block s2 = Some s'"
    by (simp add: thread_sleep_def Let_def ASSERT_def cur cur1 s1_def [symmetric]
        s2_def [symmetric] split: if_splits)
  have n2: "fst (next_thread_to_run s2) = ?n"
    by (simp add: s2_def s1_def next_thread_to_run_def upd_thread_def split: list.splits)
  have r2: "running s2 = ?cur" by (simp add: s2_def s1_def upd_thread_def)
  from tb have s': "s' = dispatched ?n
      (snd (next_thread_to_run (upd_thread ?cur (\<lambda>th. th\<lparr>status := THREAD_BLOCKED\<rparr>) s2)))"
    and itn: "is_thread s2 ?n"
    by (simp_all add: thread_block_Some n2 r2)
  from assms(3) have ncur: "?n \<noteq> ?cur" and nsl: "?n \<notin> set (sleeping_list s)" by simp_all
  from assms(1) ok have curnot: "?cur \<notin> set (sleeping_list s)"
    by (auto simp: sleep_ok_def list_all_iff)
  have th: "threads s' = (threads s)
      (?cur := (threads s ?cur)\<lparr>waik_up_time := current_time + ticks, status := THREAD_BLOCKED\<rparr>,
       ?n := (threads s ?n)\<lparr>status := THREAD_RUNNING\<rparr>)"
    using ncur
    by (auto simp: s' dispatched_def next_thread_to_run_def s2_def s1_def upd_thread_def fun_eq_iff
        split: list.splits)
  have sl: "sleeping_list s' = list_insert_ordered
      (\<lambda>a b. waik_up_time (threads s1 a) < waik_up_time (threads s1 b)) ?cur (sleeping_list s)"
    by (simp add: s' dispatched_def next_thread_to_run_def s2_def upd_thread_def thread_less_waik_fun
        split: list.splits) (simp add: s1_def upd_thread_def)
  have wk: "waik_up_time (threads s' t) = waik_up_time (threads s1 t)" for t
    using ncur by (simp add: th s1_def upd_thread_def)
  have wk1: "t \<noteq> ?cur \<Longrightarrow> waik_up_time (threads s1 t) = waik_up_time (threads s t)" for t
    by (simp add: s1_def upd_thread_def)
  have "sorted_wrt (\<lambda>a b. waik_up_time (threads s1 a) \<le> waik_up_time (threads s1 b))
      (sleeping_list s)"
  proof -
    have "sorted_wrt (\<lambda>a b. waik_up_time (threads s a) \<le> waik_up_time (threads s b))
        (sleeping_list s)"
      using assms(1) by (simp add: sleep_ok_def)
    then show ?thesis
      by (rule sorted_wrt_mono_rel [rotated]) (use curnot wk1 in \<open>metis\<close>)
  qed
  then have "sorted_wrt (\<lambda>a b. waik_up_time (threads s' a) \<le> waik_up_time (threads s' b))
      (sleeping_list s')"
    unfolding sl wk by (rule sorted_list_insert_ordered_asc)
  moreover have "distinct (sleeping_list s')"
    using assms(1) curnot by (simp add: sl sleep_ok_def)
  moreover have "list_all (\<lambda>t. is_thread s' t \<and> status (threads s' t) = THREAD_BLOCKED)
      (sleeping_list s')"
    using assms(1) ok ncur nsl
    by (auto simp: sl th sleep_ok_def list_all_iff is_thread_def)
  ultimately have "sleep_ok s'" by (simp add: sleep_ok_def)
  moreover have "?cur \<in> set (sleeping_list s')" by (simp add: sl)
  moreover have "waik_up_time (threads s' ?cur) = current_time + ticks"
    "status (threads s' ?cur) = THREAD_BLOCKED"
    using ncur by (simp_all add: th)
  ultimately show ?thesis by blast
qed


text \<open>
  Claim C5. \<^verbatim>\<open>thread_sleep\<close> records the deadline \<open>current_time + ticks\<close> on the running
  thread and keeps the sleeping list in ascending order of wake-up time (the thread
  dispatched in its place being another thread that is not asleep). A tick at time
  \<open>now\<close> goes through, wakes exactly the sleepers whose deadline is at most \<open>now\<close> (they
  are unblocked and taken off the sleeping list) and leaves every later one blocked on the
  list: the scan from the front, which stops at the first deadline not yet reached, misses
  none because the list is ascending. So a thread sleeping until 100 is left asleep by the
  tick at 99 and woken by the tick at 100.
\<close>

theorem C5_sleep_and_wake:
  assumes "sleep_ok s"
  shows "(\<forall>ticks current_time s1.
            thread_sleep ticks current_time s = Some s1 \<and>
            fst (next_thread_to_run s) \<notin> insert (running s) (set (sleeping_list s)) \<longrightarrow>
            sleep_ok s1 \<and> running s \<in> set (sleeping_list s1) \<and>
            waik_up_time (threads s1 (running s)) = current_time + ticks \<and>
            status (threads s1 (running s)) = THREAD_BLOCKED) \<and>
         (\<forall>now. is_thread s (running s) \<and> status (threads s (running s)) = THREAD_RUNNING \<longrightarrow>
            (\<exists>s'. thread_tick now s = Some s' \<and> woken now s s' \<and> sleep_ok s'))"
  using assms thread_sleep_sleep_ok [of s] thread_tick_woken [of s]
  by blast

theorem C5_sleep_and_wake_witness:
  "sleep_ok sleeper_example \<and>
   (\<exists>s1. thread_sleep 10 90 sleeper_example = Some s1 \<and> sleeping_list s1 = [5, 3] \<and>
      waik_up_time (threads s1 5) = 100 \<and>
      (\<exists>s2. thread_tick 99 s1 = Some s2 \<and> sleeping_list s2 = [5, 3] \<and>
         status (threads s2 5) = THREAD_BLOCKED) \<and>
      (\<exists>s3. thread_tick 100 s1 = Some s3 \<and> sleeping_list s3 = [3] \<and>
         status (threads s3 5) = THREAD_READY \<and> 5 \<in> set (ready_list s3)))"
proof -
  have ok0: "sleep_ok sleeper_example"
    by (simp add: sleep_ok_def sleeper_example_def example_state_def example_thread_def
        is_thread_def)
  have nx: "fst (next_thread_to_run sleeper_example) \<notin>
      insert (running sleeper_example) (set (sleeping_list sleeper_example))"
    by (simp add: next_thread_to_run_def sleeper_example_def example_state_def)
  have "\<exists>s1. thread_sleep 10 90 sleeper_example = Some s1 \<and> sleeping_list s1 = [5, 3] \<and>
      running s1 = 2 \<and> is_thread s1 2 \<and> status (threads s1 2) = THREAD_RUNNING \<and>
      waik_up_time (threads s1 3) = 150"
    by (simp add: thread_sleep_def thread_current_def thread_block_def schedule_def
        next_thread_to_run_def thread_schedule_tail_def ASSERT_def is_thread_def upd_thread_def
        Let_def int64_range_def thread_less_waik_def sleeper_example_def example_state_def
        example_thread_def)
  then obtain s1 where sl: "thread_sleep 10 90 sleeper_example = Some s1"
    and l1: "sleeping_list s1 = [5, 3]" and r1: "running s1 = 2" "is_thread s1 2"
    "status (threads s1 2) = THREAD_RUNNING" and w3: "waik_up_time (threads s1 3) = 150"
    by blast
  have run0: "running sleeper_example = 5"
    by (simp add: sleeper_example_def example_state_def)
  from C5_sleep_and_wake [OF ok0] sl nx
  have ok1: "sleep_ok s1" and w5: "waik_up_time (threads s1 5) = 100"
    by (auto simp: run0)
  from C5_sleep_and_wake [OF ok1] r1
  obtain s2 s3 where t2: "thread_tick 99 s1 = Some s2" "woken 99 s1 s2"
    and t3: "thread_tick 100 s1 = Some s3" "woken 100 s1 s3"
    by (metis (no_types))
  from t2(2) have "sleeping_list s2 = [5, 3]" "status (threads s2 5) = THREAD_BLOCKED"
    by (simp_all add: woken_def l1 w5 w3)
  moreover from t3(2) have "sleeping_list s3 = [3]" "status (threads s3 5) = THREAD_READY"
    "5 \<in> set (ready_list s3)"
    by (simp_all add: woken_def l1 w5 w3)
  ultimately show ?thesis
    using ok0 sl l1 w5 t2(1) t3(1) by blast
qed

section \<open>Setting the priority\<close>

lemma thread_set_priority_Some:
  assumes "\<not> thread_mlfqs s"
  shows "thread_set_priority n s = Some s' \<longleftrightarrow>
     is_thread s (running s) \<and> status (threads s (running s)) = THREAD_RUNNING \<and>
     (if Owned_locks (threads s (running s)) = [] \<or> n > priority (threads s (running s))
      then thread_yield (reprioritised n s) = Some s'
      else s' = upd_thread (running s) (\<lambda>th. th\<lparr>real_priority := n\<rparr>) s)"
proof (cases "thread_current s")
  case None
  then have "\<not> (is_thread s (running s) \<and> status (threads s (running s)) = THREAD_RUNNING)"
    by (simp add: thread_current_None)
  moreover have "thread_current (s\<lparr>intr_get_level := INTR_OFF\<rparr>) = None"
    using None by (simp add: thread_current_def is_thread_def Let_def)
  then have "thread_set_priority n s = None"
    using assms by (simp add: thread_set_priority_def Let_def)
  ultimately show ?thesis by auto
next
  case (Some cur)
  then have c: "cur = running s" and ok: "is_thread s (running s)"
    "status (threads s (running s)) = THREAD_RUNNING"
    by (auto simp: thread_current_Some)
  have cur': "thread_current (s\<lparr>intr_get_level := INTR_OFF\<rparr>) = Some (running s)"
    using ok by (simp add: thread_current_Some is_thread_def)
  have a: "(upd_thread (running s) (\<lambda>th. th\<lparr>priority := n\<rparr>)
        (upd_thread (running s) (\<lambda>th. th\<lparr>real_priority := n\<rparr>)
          (s\<lparr>intr_get_level := INTR_OFF\<rparr>)))\<lparr>intr_get_level := intr_get_level s\<rparr> =
      reprioritised n s"
    by (simp add: reprioritised_def upd_thread_def)
  have b: "(upd_thread (running s) (\<lambda>th. th\<lparr>real_priority := n\<rparr>)
          (s\<lparr>intr_get_level := INTR_OFF\<rparr>))\<lparr>intr_get_level := intr_get_level s\<rparr> =
      upd_thread (running s) (\<lambda>th. th\<lparr>real_priority := n\<rparr>) s"
    by (simp add: upd_thread_def)
  have o: "Owned_locks (threads (upd_thread (running s) (\<lambda>th. th\<lparr>real_priority := n\<rparr>)
          (s\<lparr>intr_get_level := INTR_OFF\<rparr>)) (running s)) = Owned_locks (threads s (running s))"
    by (simp add: upd_thread_def)
  show ?thesis
    using assms ok
    by (auto simp: thread_set_priority_def Let_def cur' a b o)
qed

lemma hd_list_insert_ordered:
  "xs \<noteq> [] \<Longrightarrow> \<not> f x (hd xs) \<Longrightarrow> hd (list_insert_ordered f x xs) = hd xs"
  by (cases xs) auto

lemma tl_list_insert_ordered:
  "xs \<noteq> [] \<Longrightarrow> \<not> f x (hd xs) \<Longrightarrow>
   tl (list_insert_ordered f x xs) = list_insert_ordered f x (tl xs)"
  by (cases xs) auto

text \<open>
  Claim C7, amended. Outside the feedback scheduler, \<^verbatim>\<open>thread_set_priority\<close> yields
  whenever it writes the effective priority, that is when the thread owns no lock or the
  new priority exceeds the old effective one, and so also when it lowers the priority:
  the thread goes back into the ready list at its new priority and the front of the list
  is dispatched at once, so that a ready thread at the front whose priority is at least
  the new one runs immediately. Only when the effective priority is left as it is (locks
  owned and the new priority not above it) is there no yield and no dispatch.
\<close>

theorem C7_set_priority_yields:
  assumes "\<not> thread_mlfqs s" and "thread_set_priority n s = Some s'"
  shows "(if Owned_locks (threads s (running s)) = [] \<or> n > priority (threads s (running s))
          then thread_yield (reprioritised n s) = Some s' \<and>
               priority (threads s' (running s)) = n
          else s' = upd_thread (running s) (\<lambda>th. th\<lparr>real_priority := n\<rparr>) s) \<and>
         (Owned_locks (threads s (running s)) = [] \<and> n < priority (threads s (running s)) \<and>
          ready_list s \<noteq> [] \<and> n \<le> priority (threads s (hd (ready_list s))) \<and>
          running s \<notin> set (ready_list s) \<and> running s \<noteq> idle_thread s \<longrightarrow>
            running s' = hd (ready_list s) \<and>
            status (threads s' (hd (ready_list s))) = THREAD_RUNNING \<and>
            status (threads s' (running s)) = THREAD_READY \<and>
            running s \<in> set (ready_list s'))"
proof -
  let ?c = "running s" and ?s1 = "reprioritised n s"
  from assms have main: "if Owned_locks (threads s ?c) = [] \<or> n > priority (threads s ?c)
      then thread_yield ?s1 = Some s'
      else s' = upd_thread ?c (\<lambda>th. th\<lparr>real_priority := n\<rparr>) s"
    by (simp add: thread_set_priority_Some)
  have p: "thread_yield ?s1 = Some s' \<Longrightarrow> priority (threads s' ?c) = n"
    using dispatch_only_fields(1) [OF thread_yield_dispatch_only, of ?s1 s' ?c]
    by (simp add: reprioritised_def upd_thread_def)
  have low: "running s' = hd (ready_list s) \<and>
      status (threads s' (hd (ready_list s))) = THREAD_RUNNING \<and>
      status (threads s' ?c) = THREAD_READY \<and> ?c \<in> set (ready_list s')"
    if h: "Owned_locks (threads s ?c) = []" "n < priority (threads s ?c)"
      "ready_list s \<noteq> []" "n \<le> priority (threads s (hd (ready_list s)))"
      "?c \<notin> set (ready_list s)" "?c \<noteq> idle_thread s"
  proof -
    from main h(1) have y: "thread_yield ?s1 = Some s'" by simp
    have f: "running ?s1 = ?c" "idle_thread ?s1 = idle_thread s" "ready_list ?s1 = ready_list s"
      by (simp_all add: reprioritised_def upd_thread_def)
    have ne: "running ?s1 \<noteq> idle_thread ?s1" using h(6) by (simp add: f)
    from h(3,5) have hc: "hd (ready_list s) \<noteq> ?c"
      using hd_in_set [of "ready_list s"] by metis
    have np: "\<not> ComparePriority ?s1 ?c (hd (ready_list s))"
      using h(4) hc by (simp add: ComparePriority_def reprioritised_def upd_thread_def)
    from y have s': "s' = yielded ?s1"
      by (simp add: thread_yield_Some [OF ne])
    have hd: "hd (list_insert_ordered (ComparePriority ?s1) ?c (ready_list s)) = hd (ready_list s)"
      and tl: "tl (list_insert_ordered (ComparePriority ?s1) ?c (ready_list s)) =
        list_insert_ordered (ComparePriority ?s1) ?c (tl (ready_list s))"
      using h(3) np by (simp_all add: hd_list_insert_ordered tl_list_insert_ordered)
    show ?thesis
      using hc by (simp add: s' yielded_def Let_def f hd tl)
  qed
  from main p low show ?thesis
    by (simp split: if_splits)
qed


lemma lowering_example_simps:
  "\<not> thread_mlfqs lowering_example" "running lowering_example = 5"
  "Owned_locks (threads lowering_example 5) = []" "priority (threads lowering_example 5) = 31"
  "ready_list lowering_example = [2]" "priority (threads lowering_example 2) = 20"
  "idle_thread lowering_example = 0" "is_thread lowering_example 5"
  "status (threads lowering_example 5) = THREAD_RUNNING"
  by (simp_all add: lowering_example_def example_state_def example_thread_def is_thread_def)

lemma reprioritised_lowering_example:
  "running (reprioritised 10 lowering_example) = 5"
  "idle_thread (reprioritised 10 lowering_example) = 0"
  "ready_list (reprioritised 10 lowering_example) = [2]"
  "is_thread (reprioritised 10 lowering_example) 5"
  "is_thread (reprioritised 10 lowering_example) 2"
  "status (threads (reprioritised 10 lowering_example) 5) = THREAD_RUNNING"
  "\<not> intr_context (reprioritised 10 lowering_example)"
  "priority (threads (reprioritised 10 lowering_example) 5) = 10"
  "priority (threads (reprioritised 10 lowering_example) 2) = 20"
  by (simp_all add: reprioritised_def upd_thread_def lowering_example_def example_state_def
      example_thread_def is_thread_def)

lemma lowering_example_run:
  "thread_set_priority 10 lowering_example = Some (yielded (reprioritised 10 lowering_example))"
proof -
  let ?s1 = "reprioritised 10 lowering_example"
  have ne: "running ?s1 \<noteq> idle_thread ?s1"
    by (simp add: reprioritised_lowering_example)
  have "thread_yield ?s1 = Some (yielded ?s1)"
    by (simp add: thread_yield_Some [OF ne] reprioritised_lowering_example ComparePriority_def)
  then show ?thesis
    by (simp add: thread_set_priority_Some lowering_example_simps)
qed

theorem C7_set_priority_yields_witness:
  "\<not> thread_mlfqs lowering_example \<and>
   Owned_locks (threads lowering_example (running lowering_example)) = [] \<and>
   10 < priority (threads lowering_example (running lowering_example)) \<and>
   (\<exists>s'. thread_set_priority 10 lowering_example = Some s' \<and>
      thread_yield (reprioritised 10 lowering_example) = Some s' \<and>
      priority (threads s' 5) = 10 \<and> running s' = 2 \<and> status (threads s' 5) = THREAD_READY)"
  using C7_set_priority_yields [OF lowering_example_simps(1) lowering_example_run]
  by (simp add: lowering_example_simps lowering_example_run)

text \<open>
  Claim C7 as stated fails. Thread 5 runs with priority 31 and owns no lock, thread 2 is
  ready with priority 20, and the default scheduler is active. When thread 5 lowers its
  priority to 10, \<^verbatim>\<open>thread_set_priority\<close> yields: thread 2 is dispatched and thread 5
  waits in the ready list.
\<close>

theorem C7_set_priority_counterexample:
  "\<not> thread_mlfqs lowering_example \<and>
   running lowering_example = 5 \<and>
   priority (threads lowering_example 5) = 31 \<and>
   thread_set_priority 10 lowering_example \<noteq> None \<and>
   priority (threads (the (thread_set_priority 10 lowering_example)) 5) = 10 \<and>
   running (the (thread_set_priority 10 lowering_example)) = 2 \<and>
   status (threads (the (thread_set_priority 10 lowering_example)) 2) = THREAD_RUNNING \<and>
   status (threads (the (thread_set_priority 10 lowering_example)) 5) = THREAD_READY \<and>
   ready_list (the (thread_set_priority 10 lowering_example)) = [5]"
  by (simp add: lowering_example_run lowering_example_simps)
     (simp add: yielded_def Let_def reprioritised_lowering_example ComparePriority_def)

section \<open>Creation and the donation invariant\<close>

lemma thread_init_loader_state:
  "\<exists>s. thread_init pintos_extern (loader_state m) = Some s \<and> running s = 5 \<and>
     all_list s = [5] \<and> ready_list s = [] \<and> thread_mlfqs s = m \<and>
     threads s 5 = \<lparr>tid = 1, status = THREAD_RUNNING, priority = 31, magic = THREAD_MAGIC,
                       real_priority = 31, Owned_locks = [], Waited_on_lock = 0, nice = 0,
                       recent_cpu = 0, waik_up_time = 0\<rparr> \<and>
     intr_get_level s = INTR_OFF \<and> \<not> intr_context s \<and> idle_thread s = 0 \<and> next_tid s = 2"
  by (simp add: thread_init_def init_thread_def allocate_tid_def ASSERT_def upd_thread_def
      Let_def pintos_extern_def loader_state_def)


lemma create_after_boot:
  assumes "running s = 5" "all_list s = [5]" "ready_list s = []" "thread_mlfqs s"
    "threads s 5 = \<lparr>tid = 1, status = THREAD_RUNNING, priority = 31, magic = THREAD_MAGIC,
                       real_priority = 31, Owned_locks = [], Waited_on_lock = 0, nice = 0,
                       recent_cpu = 0, waik_up_time = 0\<rparr>"
    "intr_get_level s = INTR_OFF" "\<not> intr_context s" "idle_thread s = 0" "next_tid s = 2"
  shows "\<exists>s'. thread_create pintos_extern 0 7 6 s = Some (2, s') \<and>
     priority (threads s' 6) = 63 \<and> priority (threads s' 5) = 31 \<and> running s' = 5 \<and>
     status (threads s' 5) = THREAD_RUNNING \<and> status (threads s' 6) = THREAD_READY \<and>
     ready_list s' = [6]"
  using assms
  by (simp add: thread_create_def init_thread_def allocate_tid_def ASSERT_def upd_thread_def
      Let_def thread_current_def is_thread_def thread_update_priority_mlfqs_def int_range_def
      thread_unblock_def ComparePriority_def pintos_extern_def c_div_def)


lemma nice_create_after_boot:
  assumes "running s = 5" "all_list s = [5]" "ready_list s = []" "thread_mlfqs s"
    "threads s 5 = \<lparr>tid = 1, status = THREAD_RUNNING, priority = 31, magic = THREAD_MAGIC,
                       real_priority = 31, Owned_locks = [], Waited_on_lock = 0, nice = 0,
                       recent_cpu = 0, waik_up_time = 0\<rparr>"
    "intr_get_level s = INTR_OFF" "\<not> intr_context s" "idle_thread s = 0" "next_tid s = 2"
  shows "\<exists>s'. run_ops pintos_extern [Set_nice 20, Create 63 7 6] s = Some s' \<and>
     priority (threads s' 6) = 23 \<and> priority (threads s' 5) = 23 \<and> running s' = 6 \<and>
     status (threads s' 5) = THREAD_READY \<and> status (threads s' 6) = THREAD_RUNNING \<and>
     ready_list s' = [5]"
proof -
  have "\<exists>s1. thread_set_nice pintos_extern 20 s = Some s1 \<and>
      running s1 = 5 \<and> all_list s1 = [5] \<and> ready_list s1 = [] \<and> thread_mlfqs s1 \<and>
      threads s1 5 = \<lparr>tid = 1, status = THREAD_RUNNING, priority = 23, magic = THREAD_MAGIC,
                       real_priority = 31, Owned_locks = [], Waited_on_lock = 0, nice = 20,
                       recent_cpu = 0, waik_up_time = 0\<rparr> \<and>
      intr_get_level s1 = INTR_OFF \<and> \<not> intr_context s1 \<and> idle_thread s1 = 0 \<and> next_tid s1 = 2"
    using assms
    by (simp add: thread_set_nice_def thread_current_def is_thread_def ASSERT_def upd_thread_def
        Let_def thread_update_priority_mlfqs_def int_range_def thread_try_yeild_def
        pintos_extern_def c_div_def)
  then obtain s1 where n: "thread_set_nice pintos_extern 20 s = Some s1"
    and f: "running s1 = 5" "all_list s1 = [5]" "ready_list s1 = []" "thread_mlfqs s1"
      "threads s1 5 = \<lparr>tid = 1, status = THREAD_RUNNING, priority = 23, magic = THREAD_MAGIC,
                       real_priority = 31, Owned_locks = [], Waited_on_lock = 0, nice = 20,
                       recent_cpu = 0, waik_up_time = 0\<rparr>"
      "intr_get_level s1 = INTR_OFF" "\<not> intr_context s1" "idle_thread s1 = 0" "next_tid s1 = 2"
    by blast
  have "\<exists>s'. thread_create pintos_extern 63 7 6 s1 = Some (2, s') \<and>
     priority (threads s' 6) = 23 \<and> priority (threads s' 5) = 23 \<and> running s' = 6 \<and>
     status (threads s' 5) = THREAD_READY \<and> status (threads s' 6) = THREAD_RUNNING \<and>
     ready_list s' = [5]"
    using f
    by (simp add: thread_create_def init_thread_def allocate_tid_def ASSERT_def upd_thread_def
      Let_def thread_current_def is_thread_def thread_update_priority_mlfqs_def int_range_def
      thread_unblock_def ComparePriority_def pintos_extern_def c_div_def thread_yield_def
      schedule_def next_thread_to_run_def thread_schedule_tail_def)
  with n show ?thesis by auto
qed


lemma inv_step_priority_inv:
  "inv_step s s' \<Longrightarrow> priority_inv s \<Longrightarrow> priority_inv s'"
  unfolding inv_step_def priority_inv_def list_all_iff by blast

lemma donation_ok_status [simp]: "donation_ok (th\<lparr>status := st\<rparr>) = donation_ok th"
  by (simp add: donation_ok_def)

lemma donated_priority_ge: "real_priority (threads s t) \<le> donated_priority s t"
  by (simp add: donated_priority_def)

lemma donated_priority_no_locks:
  "Owned_locks (threads s t) = [] \<Longrightarrow> donated_priority s t = real_priority (threads s t)"
  by (simp add: donated_priority_def)

lemma thread_update_priority_donation_ok:
  "donation_ok (threads (thread_update_priority t s) t)"
proof -
  have "Owned_locks (threads (thread_update_priority t s) t) = [] \<Longrightarrow>
      Owned_locks (threads s t) = []"
    using thread_update_priority_frame [of t s t] by (metis set_empty)
  then show ?thesis
    using thread_update_priority_frame [of t s t]
    by (auto simp: donation_ok_def thread_update_priority_priority donated_priority_ge
        donated_priority_no_locks)
qed

lemma thread_update_priority_globals:
  "all_list (thread_update_priority t s) = all_list s"
  "thread_mlfqs (thread_update_priority t s) = thread_mlfqs s"
  "ready_list (thread_update_priority t s) = ready_list s"
  by (simp_all add: thread_update_priority_def upd_thread_def Let_def)

lemma thread_update_priority_inv_step: "inv_step s (thread_update_priority t s)"
  unfolding inv_step_def thread_update_priority_globals
  using thread_update_priority_donation_ok [of t s] thread_update_priority_others [of _ t s]
  by (metis)

lemma thread_donate_priority_threads:
  "threads (thread_donate_priority t s) = threads (thread_update_priority t s)"
  "all_list (thread_donate_priority t s) = all_list s"
  "thread_mlfqs (thread_donate_priority t s) = thread_mlfqs s"
  by (simp_all add: thread_donate_priority_def Let_def thread_update_priority_def upd_thread_def)

lemma thread_donate_priority_inv_step: "inv_step s (thread_donate_priority t s)"
  using thread_update_priority_inv_step [of s t]
  by (simp add: inv_step_def thread_donate_priority_threads thread_update_priority_globals)

lemma dispatch_only_inv_step:
  assumes "dispatch_only s s'"
  shows "inv_step s s'"
proof -
  have "donation_ok (threads s' t) = donation_ok (threads s t)" for t
  proof -
    from assms obtain st where "threads s' t = (threads s t)\<lparr>status := st\<rparr>"
      unfolding dispatch_only_def by blast
    then show ?thesis by simp
  qed
  moreover from assms have "all_list s' = all_list s" "thread_mlfqs s' = thread_mlfqs s"
    by (simp_all add: dispatch_only_def)
  ultimately show ?thesis
    by (simp add: inv_step_def)
qed

lemma inv_step_trans: "inv_step s s1 \<Longrightarrow> inv_step s1 s2 \<Longrightarrow> inv_step s s2"
  unfolding inv_step_def by (metis)

lemma thread_set_priority_inv_step:
  assumes "\<not> thread_mlfqs s" and "thread_set_priority n s = Some s'"
  shows "inv_step s s'"
proof (cases "Owned_locks (threads s (running s)) = [] \<or> n > priority (threads s (running s))")
  case True
  with assms have "thread_yield (reprioritised n s) = Some s'"
    by (simp add: thread_set_priority_Some)
  then have "inv_step (reprioritised n s) s'"
    by (intro dispatch_only_inv_step thread_yield_dispatch_only)
  moreover have "inv_step s (reprioritised n s)"
    by (simp add: inv_step_def reprioritised_def upd_thread_def donation_ok_def)
  ultimately show ?thesis by (rule inv_step_trans [rotated])
next
  case False
  with assms have "s' = upd_thread (running s) (\<lambda>th. th\<lparr>real_priority := n\<rparr>) s"
    by (simp add: thread_set_priority_Some)
  with False show ?thesis
    by (auto simp: inv_step_def upd_thread_def donation_ok_def)
qed


lemma inv_step_refl [simp]: "inv_step s s"
  by (simp add: inv_step_def)

lemma init_thread_Some:
  "init_thread e t pri s = Some s' \<longleftrightarrow>
     t \<noteq> 0 \<and> PRI_MIN e \<le> pri \<and> pri \<le> PRI_MAX e \<and>
     s' = s\<lparr>threads := (threads s)(t :=
               \<lparr>tid = 0, status = THREAD_BLOCKED, priority = pri, magic = THREAD_MAGIC,
                real_priority = pri, Owned_locks = [], Waited_on_lock = 0, nice = 0,
                recent_cpu = real_zeroed e, waik_up_time = 0\<rparr>),
             all_list := list_insert_ordered
               (ComparePriority_allelem e
                  (s\<lparr>threads := (threads s)(t :=
                       \<lparr>tid = 0, status = THREAD_BLOCKED, priority = pri, magic = THREAD_MAGIC,
                        real_priority = pri, Owned_locks = [], Waited_on_lock = 0, nice = 0,
                        recent_cpu = real_zeroed e, waik_up_time = 0\<rparr>),
                     intr_get_level := INTR_OFF\<rparr>))
               t (all_list s)\<rparr>"
  by (auto simp: init_thread_def ASSERT_def Let_def)

lemma thread_create_inv_step:
  assumes "\<not> thread_mlfqs s" and "thread_create e pri function page s = Some (new_tid, s')"
  shows "inv_step s s'"
proof (cases "page = 0")
  case True
  with assms(2) show ?thesis
    by (simp add: thread_create_def ASSERT_def Let_def split: if_splits)
next
  case False
  from assms(2) False obtain s1 where i: "init_thread e page pri s = Some s1"
    by (cases "init_thread e page pri s")
       (simp_all add: thread_create_def ASSERT_def Let_def split: if_splits)
  define s2 where "s2 = upd_thread page (\<lambda>th. th\<lparr>tid := fst (allocate_tid s1)\<rparr>)
      (snd (allocate_tid s1))"
  have m1: "thread_mlfqs s1 = thread_mlfqs s"
    using i by (auto simp: init_thread_Some)
  have m2: "\<not> thread_mlfqs s2"
    using assms(1) m1 by (simp add: s2_def upd_thread_def allocate_tid_def)
  from assms(2) False obtain s3 where u: "thread_unblock page s2 = Some s3"
    by (cases "thread_unblock page s2")
       (simp_all add: thread_create_def ASSERT_def Let_def i s2_def [symmetric] m2
         split: if_splits)
  from assms(2) False have fin: "s' = s3 \<or> thread_yield s3 = Some s'"
    by (cases "thread_current s3")
       (auto simp: thread_create_def ASSERT_def Let_def i s2_def [symmetric] m2 u
         Option.bind_eq_Some_conv split: if_splits)
  have th3: "threads s3 = (threads s)(page := threads s3 page)"
    and ok3: "donation_ok (threads s3 page)"
    and al3: "set (all_list s3) = insert page (set (all_list s))"
    and m3: "thread_mlfqs s3 = thread_mlfqs s"
    using i u
    by (auto simp: init_thread_Some thread_unblock_Some s2_def upd_thread_def allocate_tid_def
        donation_ok_def fun_eq_iff)
  have "inv_step s s3"
    unfolding inv_step_def
  proof (intro conjI ballI impI)
    show "thread_mlfqs s3 = thread_mlfqs s" by (rule m3)
  next
    fix t assume "t \<in> set (all_list s3)" "t \<in> set (all_list s) \<and> donation_ok (threads s t)"
    then show "donation_ok (threads s3 t)"
      using ok3 th3 by (cases "t = page") (simp, metis fun_upd_other)
  next
    fix t assume "t \<in> set (all_list s3)" "t \<notin> set (all_list s)"
    then show "donation_ok (threads s3 t)"
      using ok3 al3 by auto
  qed
  moreover have "inv_step s3 s'"
    using fin by (auto intro: dispatch_only_inv_step thread_yield_dispatch_only)
  ultimately show ?thesis by (rule inv_step_trans)
qed

lemma apply_op_inv_step:
  assumes "\<not> thread_mlfqs s" and "donation_op x" and "apply_op e x s = Some s'"
  shows "inv_step s s'"
proof (cases x)
  case (Create pri func page)
  with assms(3) obtain new_tid where "thread_create e pri func page s = Some (new_tid, s')"
    by auto
  with assms(1) show ?thesis by (rule thread_create_inv_step)
next
  case (Set_priority n)
  with assms show ?thesis by (simp add: thread_set_priority_inv_step)
next
  case (Donate_to t)
  with assms(3) show ?thesis by (auto simp: thread_donate_priority_inv_step)
next
  case (Recompute t)
  with assms(3) show ?thesis by (auto simp: thread_update_priority_inv_step)
next
  case (Set_nice n)
  with assms(2) show ?thesis by simp
next
  case Mlfqs_recompute
  with assms(2) show ?thesis by simp
qed

text \<open>
  Claim C9, amended. Under the default scheduler, from a state in which every registered
  thread's effective priority is at least its base priority, and equal to it where the
  thread owns no lock, every sequence of the operations create, set priority, donate and
  recompute that goes through ends in such a state.
\<close>

theorem C9_priority_invariant:
  assumes "\<not> thread_mlfqs s" and "priority_inv s"
    and "list_all donation_op ops" and "run_ops e ops s = Some s'"
  shows "priority_inv s'"
  using assms
proof (induction ops arbitrary: s)
  case Nil
  then show ?case by simp
next
  case (Cons x xs)
  from Cons.prems(4) obtain s1 where a: "apply_op e x s = Some s1"
    and r: "run_ops e xs s1 = Some s'"
    by (auto split: option.splits)
  from Cons.prems(3) have "donation_op x" by simp
  with Cons.prems(1) have st: "inv_step s s1"
    using a by (rule apply_op_inv_step)
  then have "\<not> thread_mlfqs s1"
    using Cons.prems(1) by (simp add: inv_step_def)
  moreover from st Cons.prems(2) have "priority_inv s1"
    by (rule inv_step_priority_inv)
  ultimately have "\<not> thread_mlfqs s1" "priority_inv s1" by simp_all
  with Cons.IH [of s1] Cons.prems(3) r show ?case by simp
qed


lemma nice_after_boot:
  assumes "running s = 5" "all_list s = [5]" "ready_list s = []"
    "threads s 5 = \<lparr>tid = 1, status = THREAD_RUNNING, priority = 31, magic = THREAD_MAGIC,
                       real_priority = 31, Owned_locks = [], Waited_on_lock = 0, nice = 0,
                       recent_cpu = 0, waik_up_time = 0\<rparr>"
    "intr_get_level s = INTR_OFF" "\<not> intr_context s"
  shows "\<exists>s1. thread_set_nice pintos_extern 20 s = Some s1 \<and> all_list s1 = [5] \<and>
      threads s1 5 = \<lparr>tid = 1, status = THREAD_RUNNING, priority = 23, magic = THREAD_MAGIC,
                       real_priority = 31, Owned_locks = [], Waited_on_lock = 0, nice = 20,
                       recent_cpu = 0, waik_up_time = 0\<rparr>"
  using assms
  by (simp add: thread_set_nice_def thread_current_def is_thread_def ASSERT_def upd_thread_def
      Let_def thread_update_priority_mlfqs_def int_range_def thread_try_yeild_def
      pintos_extern_def c_div_def)

text \<open>
  Claim C9 as stated fails. After \<^verbatim>\<open>thread_init\<close> under the default scheduler the main
  thread sets its niceness to 20: its effective priority becomes 23, below its base
  priority 31, and it owns no lock.
\<close>

theorem C9_priority_invariant_counterexample:
  "run_from_boot False [Set_nice 20] \<noteq> None \<and>
   all_list (the (run_from_boot False [Set_nice 20])) = [5] \<and>
   Owned_locks (threads (the (run_from_boot False [Set_nice 20])) 5) = [] \<and>
   priority (threads (the (run_from_boot False [Set_nice 20])) 5) = 23 \<and>
   real_priority (threads (the (run_from_boot False [Set_nice 20])) 5) = 31 \<and>
   \<not> priority_inv (the (run_from_boot False [Set_nice 20]))"
proof -
  from thread_init_loader_state [of False] obtain s where b: "thread_init pintos_extern (loader_state False) = Some s"
    and f: "running s = 5" "all_list s = [5]" "ready_list s = []"
      "threads s 5 = \<lparr>tid = 1, status = THREAD_RUNNING, priority = 31, magic = THREAD_MAGIC,
                       real_priority = 31, Owned_locks = [], Waited_on_lock = 0, nice = 0,
                       recent_cpu = 0, waik_up_time = 0\<rparr>"
      "intr_get_level s = INTR_OFF" "\<not> intr_context s"
    by blast
  from nice_after_boot [OF f] obtain s1 where n: "thread_set_nice pintos_extern 20 s = Some s1"
    and g: "all_list s1 = [5]"
      "threads s1 5 = \<lparr>tid = 1, status = THREAD_RUNNING, priority = 23, magic = THREAD_MAGIC,
                       real_priority = 31, Owned_locks = [], Waited_on_lock = 0, nice = 20,
                       recent_cpu = 0, waik_up_time = 0\<rparr>"
    by blast
  have "run_from_boot False [Set_nice 20] = Some s1"
    by (simp add: run_from_boot_def b n)
  then show ?thesis
    by (simp add: g priority_inv_def donation_ok_def)
qed

theorem C9_priority_invariant_witness:
  "\<not> thread_mlfqs donated_runner \<and> priority_inv donated_runner \<and>
   list_all donation_op [Set_priority 35, Recompute 5, Donate_to 2] \<and>
   (\<exists>s'. run_ops pintos_extern [Set_priority 35, Recompute 5, Donate_to 2] donated_runner = Some s' \<and>
      priority_inv s' \<and> all_list s' = [5, 2])"
proof -
  have m: "\<not> thread_mlfqs donated_runner"
    and i: "priority_inv donated_runner"
    by (simp_all add: priority_inv_def donation_ok_def donated_runner_def example_state_def
        example_thread_def)
  have o: "list_all donation_op [Set_priority 35, Recompute 5, Donate_to 2]" by simp
  have f: "is_thread donated_runner (running donated_runner)"
    "status (threads donated_runner (running donated_runner)) = THREAD_RUNNING"
    "Owned_locks (threads donated_runner (running donated_runner)) \<noteq> []"
    "\<not> 35 > priority (threads donated_runner (running donated_runner))"
    by (simp_all add: donated_runner_def example_state_def example_thread_def is_thread_def)
  have sp: "thread_set_priority 35 donated_runner =
      Some (upd_thread (running donated_runner) (\<lambda>th. th\<lparr>real_priority := 35\<rparr>) donated_runner)"
    using f by (simp add: thread_set_priority_Some [OF m])
  have al: "all_list (thread_donate_priority 2 (thread_update_priority 5
      (upd_thread (running donated_runner) (\<lambda>th. th\<lparr>real_priority := 35\<rparr>) donated_runner))) =
      [5, 2]"
    by (simp add: thread_donate_priority_threads thread_update_priority_globals upd_thread_def)
       (simp add: donated_runner_def example_state_def)
  have r: "run_ops pintos_extern [Set_priority 35, Recompute 5, Donate_to 2] donated_runner =
      Some (thread_donate_priority 2 (thread_update_priority 5
        (upd_thread (running donated_runner) (\<lambda>th. th\<lparr>real_priority := 35\<rparr>) donated_runner)))"
    by (simp add: sp)
  from C9_priority_invariant [OF m i o r] m i o r al show ?thesis by simp
qed

text \<open>
  Claim C6 fails on the code under the feedback scheduler, where \<^verbatim>\<open>thread_create\<close>
  compares the creator's priority with the priority argument and not with the priority
  it has just derived for the new thread. Right after \<^verbatim>\<open>thread_init\<close>, the main thread
  (priority 31) creates a thread with argument 0, as \<^verbatim>\<open>thread_start\<close> does for the idle
  thread: the new thread's priority is 63 and the creator does not yield. After setting its
  niceness to 20 (priority 23) the main thread creates a thread with argument 63: the new
  thread's priority is 23, no higher than the creator's, and the creator yields to it.
\<close>

theorem C6_create_compares_argument:
  "run_from_boot True [Create 0 7 6] \<noteq> None \<and>
   priority (threads (the (run_from_boot True [Create 0 7 6])) 6) = 63 \<and>
   priority (threads (the (run_from_boot True [Create 0 7 6])) 5) = 31 \<and>
   running (the (run_from_boot True [Create 0 7 6])) = 5 \<and>
   ready_list (the (run_from_boot True [Create 0 7 6])) = [6] \<and>
   run_from_boot True [Set_nice 20, Create 63 7 6] \<noteq> None \<and>
   priority (threads (the (run_from_boot True [Set_nice 20, Create 63 7 6])) 6) = 23 \<and>
   priority (threads (the (run_from_boot True [Set_nice 20, Create 63 7 6])) 5) = 23 \<and>
   running (the (run_from_boot True [Set_nice 20, Create 63 7 6])) = 6"
proof -
  from thread_init_loader_state [of True] obtain s where b: "thread_init pintos_extern (loader_state True) = Some s"
    and f: "running s = 5" "all_list s = [5]" "ready_list s = []" "thread_mlfqs s"
      "threads s 5 = \<lparr>tid = 1, status = THREAD_RUNNING, priority = 31, magic = THREAD_MAGIC,
                       real_priority = 31, Owned_locks = [], Waited_on_lock = 0, nice = 0,
                       recent_cpu = 0, waik_up_time = 0\<rparr>"
      "intr_get_level s = INTR_OFF" "\<not> intr_context s" "idle_thread s = 0" "next_tid s = 2"
    by auto
  from create_after_boot [OF f] obtain s1 where
    c1: "thread_create pintos_extern 0 7 6 s = Some (2, s1)"
    and g1: "priority (threads s1 6) = 63" "priority (threads s1 5) = 31" "running s1 = 5"
      "ready_list s1 = [6]"
    by blast
  from nice_create_after_boot [OF f] obtain s2 where
    c2: "run_ops pintos_extern [Set_nice 20, Create 63 7 6] s = Some s2"
    and g2: "priority (threads s2 6) = 23" "priority (threads s2 5) = 23" "running s2 = 6"
    by blast
  have "run_from_boot True [Create 0 7 6] = Some s1"
    by (simp add: run_from_boot_def b c1)
  moreover have "run_from_boot True [Set_nice 20, Create 63 7 6] = Some s2"
    using c2 by (simp add: run_from_boot_def b)
  ultimately show ?thesis
    by (simp add: g1 g2)
qed

section \<open>Further properties\<close>

lemma sorted_wrt_remove1:
  "sorted_wrt P xs \<Longrightarrow> sorted_wrt P (remove1 x xs)"
  by (induction xs) auto

text \<open>
  \<^verbatim>\<open>thread_donate_priority\<close> recomputes the thread's priority and, when the thread is
  ready, puts it at the place of its new priority: a ready list in order stays in order.
\<close>

theorem thread_donate_priority_ready_ok:
  assumes "ready_ok s"
  shows "ready_ok (thread_donate_priority t s) \<and>
         priority (threads (thread_donate_priority t s) t) = donated_priority s t \<and>
         set (ready_list (thread_donate_priority t s)) =
           (if status (threads s t) = THREAD_READY then insert t (set (ready_list s))
            else set (ready_list s))"
proof -
  let ?s1 = "thread_update_priority t s"
  have st: "status (threads ?s1 u) = status (threads s u)" for u
    by (simp add: thread_update_priority_def upd_thread_def Let_def)
  have pr: "u \<noteq> t \<Longrightarrow> priority (threads ?s1 u) = priority (threads s u)" for u
    by (simp add: thread_update_priority_others)
  have rl: "ready_list ?s1 = ready_list s"
    by (simp add: thread_update_priority_globals)
  from assms have so: "sorted_wrt (\<lambda>a b. priority (threads s a) \<ge> priority (threads s b))
      (ready_list s)"
    and di: "distinct (ready_list s)"
    and re: "\<forall>u \<in> set (ready_list s). status (threads s u) = THREAD_READY"
    by (simp_all add: ready_ok_def list_all_iff)
  show ?thesis
  proof (cases "status (threads s t) = THREAD_READY")
    case True
    let ?rm = "remove1 t (ready_list s)"
    have d: "thread_donate_priority t s =
        ?s1\<lparr>ready_list := list_insert_ordered (ComparePriority ?s1) t ?rm\<rparr>"
      using True
      by (simp add: thread_donate_priority_def Let_def st rl ComparePriority_fun)
         (simp add: thread_update_priority_def upd_thread_def Let_def)
    have "sorted_wrt (\<lambda>a b. priority (threads s a) \<ge> priority (threads s b)) ?rm"
      using so by (rule sorted_wrt_remove1)
    then have "sorted_wrt (\<lambda>a b. priority (threads ?s1 a) \<ge> priority (threads ?s1 b)) ?rm"
      by (rule sorted_wrt_mono_rel [rotated]) (use di pr in auto)
    then have "sorted_wrt (\<lambda>a b. priority (threads ?s1 a) \<ge> priority (threads ?s1 b))
        (list_insert_ordered (ComparePriority ?s1) t ?rm)"
      unfolding ComparePriority_fun by (rule sorted_list_insert_ordered)
    moreover have "distinct (list_insert_ordered (ComparePriority ?s1) t ?rm)"
      using di by simp
    moreover have "\<forall>u \<in> set (list_insert_ordered (ComparePriority ?s1) t ?rm).
        status (threads ?s1 u) = THREAD_READY"
      using re True by (auto simp: st)
    ultimately have "ready_ok (thread_donate_priority t s)"
      by (simp add: d ready_ok_def list_all_iff)
    moreover have "set (list_insert_ordered (ComparePriority ?s1) t ?rm) = insert t (set (ready_list s))"
      using di by auto
    ultimately show ?thesis
      using True
      by (simp add: thread_donate_priority_threads thread_update_priority_priority)
         (simp add: d)
  next
    case False
    with re have notin: "t \<notin> set (ready_list s)" by auto
    have d: "thread_donate_priority t s = ?s1"
      using False
      by (simp add: thread_donate_priority_def Let_def st)
         (simp add: thread_update_priority_def upd_thread_def Let_def)
    have "sorted_wrt (\<lambda>a b. priority (threads ?s1 a) \<ge> priority (threads ?s1 b)) (ready_list s)"
      using so by (rule sorted_wrt_mono_rel [rotated]) (use notin pr in \<open>metis\<close>)
    then have "ready_ok ?s1"
      using di re by (simp add: ready_ok_def rl st list_all_iff)
    then show ?thesis
      using False by (simp add: d thread_update_priority_priority rl)
  qed
qed

text \<open>
  \<^verbatim>\<open>thread_update_priority_mlfqs_all\<close> derives every registered thread's priority anew
  and then sorts the ready list: whenever it returns, the ready list holds the threads it
  held, in descending order of the new priorities.
\<close>

theorem thread_update_priority_mlfqs_all_sorted:
  assumes "thread_update_priority_mlfqs_all e s = Some s'"
  shows "sorted_wrt (\<lambda>a b. priority (threads s' a) \<ge> priority (threads s' b)) (ready_list s') \<and>
         set (ready_list s') = set (ready_list s)"
proof -
  from assms obtain s1 where f: "thread_foreach (thread_update_priority_mlfqs e) s = Some s1"
    and s': "s' = s1\<lparr>ready_list := list_sort (ComparePriority s1) (ready_list s1)\<rparr>"
    by (auto simp: thread_update_priority_mlfqs_all_def Option.bind_eq_Some_conv)
  have loop: "thread_foreach_loop (thread_update_priority_mlfqs e) ts a = Some b \<Longrightarrow>
      ready_list b = ready_list a" for ts a b
  proof (induction ts arbitrary: a)
    case Nil
    then show ?case by simp
  next
    case (Cons t ts)
    then show ?case
      by (auto simp: thread_update_priority_mlfqs_Some upd_thread_def split: option.splits)
  qed
  from f have "ready_list s1 = ready_list s"
    by (auto simp: thread_foreach_def ASSERT_def loop split: if_splits)
  then show ?thesis
    using sorted_list_sort [of "\<lambda>t. priority (threads s1 t)" "ready_list s1"]
    by (simp add: s' ComparePriority_fun)
qed

text \<open>Under the feedback scheduler \<^verbatim>\<open>thread_set_priority\<close> changes nothing.\<close>

theorem thread_set_priority_mlfqs_noop:
  "thread_mlfqs s \<Longrightarrow> thread_set_priority n s = Some s"
  by (simp add: thread_set_priority_def)

text \<open>
  \<^verbatim>\<open>thread_try_yeild\<close> changes nothing when the front of the ready list does not have a
  strictly higher priority than the running thread.
\<close>

theorem thread_try_yeild_noop:
  assumes "\<not> front_outranks s" and "is_thread s (running s)"
    and "status (threads s (running s)) = THREAD_RUNNING"
  shows "thread_try_yeild s = Some s"
  using assms by (simp add: thread_try_yeild_Some)


lemma list_insert_ordered_front:
  "(xs \<noteq> [] \<Longrightarrow> f x (hd xs)) \<Longrightarrow> list_insert_ordered f x xs = x # xs"
  by (cases xs) auto

text \<open>
  Under the default scheduler \<^verbatim>\<open>thread_create\<close> gives the new thread the priority asked
  for and yields exactly when that priority is strictly above the creator's: then the
  creator is back in the ready list and another thread runs, the new thread if its
  priority is above that of every ready thread; otherwise the creator goes on running and
  the new thread waits in the ready list.
\<close>

theorem thread_create_default_scheduler:
  assumes "\<not> thread_mlfqs s"
    and "thread_create e pri func page s = Some (new_tid, s')"
    and "page \<noteq> 0" and "page \<noteq> running s" and "running s \<noteq> idle_thread s"
    and "running s \<notin> set (ready_list s)" and "page \<notin> set (ready_list s)"
  shows "priority (threads s' page) = pri \<and>
    (if priority (threads s (running s)) < pri
     then status (threads s' (running s)) = THREAD_READY \<and>
          running s \<in> set (ready_list s') \<and> running s' \<noteq> running s \<and>
          ((\<forall>t \<in> set (ready_list s). priority (threads s t) < pri) \<longrightarrow>
             running s' = page \<and> status (threads s' page) = THREAD_RUNNING)
     else running s' = running s \<and> status (threads s' page) = THREAD_READY \<and>
          set (ready_list s') = insert page (set (ready_list s)))"
proof -
  let ?c = "running s"
  from assms(2,3) obtain s1 where i: "init_thread e page pri s = Some s1"
    by (cases "init_thread e page pri s")
       (simp_all add: thread_create_def ASSERT_def Let_def split: if_splits)
  define s2 where "s2 = upd_thread page (\<lambda>th. th\<lparr>tid := fst (allocate_tid s1)\<rparr>)
      (snd (allocate_tid s1))"
  have m2: "\<not> thread_mlfqs s2"
    using assms(1) i by (auto simp: s2_def upd_thread_def allocate_tid_def init_thread_Some)
  from assms(2,3) obtain s3 where u: "thread_unblock page s2 = Some s3"
    by (cases "thread_unblock page s2")
       (simp_all add: thread_create_def ASSERT_def Let_def i s2_def [symmetric] m2
         split: if_splits)
  from assms(2,3) obtain cur where cur: "thread_current s3 = Some cur"
    by (cases "thread_current s3")
       (simp_all add: thread_create_def ASSERT_def Let_def i s2_def [symmetric] m2 u
         split: if_splits)
  have f3: "running s3 = ?c" "idle_thread s3 = idle_thread s"
    "ready_list s3 = list_insert_ordered (ComparePriority s3) page (ready_list s)"
    "priority (threads s3 page) = pri" "status (threads s3 page) = THREAD_READY"
    "\<And>t. t \<noteq> page \<Longrightarrow> threads s3 t = threads s t"
    using i u
    by (auto simp: init_thread_Some thread_unblock_Some s2_def upd_thread_def allocate_tid_def
        ComparePriority_fun)
  from cur have c: "cur = ?c" by (simp add: thread_current_Some f3)
  have pc: "priority (threads s3 ?c) = priority (threads s ?c)"
    using assms(4) by (simp add: f3(6))
  from assms(2,3) have fin: "if priority (threads s ?c) < pri then thread_yield s3 = Some s'
      else s' = s3"
    by (auto simp: thread_create_def ASSERT_def Let_def i s2_def [symmetric] m2 u cur c pc
        Option.bind_eq_Some_conv split: if_splits)
  show ?thesis
  proof (cases "priority (threads s ?c) < pri")
    case False
    with fin have "s' = s3" by simp
    with False show ?thesis by (simp add: f3)
  next
    case True
    with fin have y: "thread_yield s3 = Some s'" by simp
    have ne: "running s3 \<noteq> idle_thread s3" using assms(5) by (simp add: f3)
    from y have s': "s' = yielded s3" by (simp add: thread_yield_Some [OF ne])
    let ?rl = "list_insert_ordered (ComparePriority s3) ?c (ready_list s3)"
    have pp: "priority (threads s' page) = pri"
      using dispatch_only_fields(1) [OF thread_yield_dispatch_only [OF y], of page]
      by (simp add: f3)
    have np: "\<not> ComparePriority s3 ?c page"
      using True by (simp add: ComparePriority_def f3(4) pc)
    have ne3: "ready_list s3 \<noteq> []" by (simp add: f3(3))
    have "\<not> ComparePriority s3 ?c (hd (ready_list s3))"
    proof (cases "ready_list s")
      case Nil
      then show ?thesis using np by (simp add: f3(3))
    next
      case (Cons a as)
      show ?thesis
      proof (cases "ComparePriority s3 page a")
        case True
        then show ?thesis using np Cons by (simp add: f3(3))
      next
        case False
        then have "priority (threads s3 a) \<ge> pri"
          by (simp add: ComparePriority_def f3(4))
        then show ?thesis
          using False Cons \<open>priority (threads s ?c) < pri\<close>
          by (simp add: f3(3) ComparePriority_def pc)
      qed
    qed
    with ne3 have hd: "hd ?rl = hd (ready_list s3)"
      and tl: "tl ?rl = list_insert_ordered (ComparePriority s3) ?c (tl (ready_list s3))"
      by (simp_all add: hd_list_insert_ordered tl_list_insert_ordered)
    have "hd (ready_list s3) \<in> insert page (set (ready_list s))"
      using hd_in_set [OF ne3] by (simp add: f3(3))
    with assms(4,6) have hc: "hd (ready_list s3) \<noteq> ?c" by auto
    have top: "hd (ready_list s3) = page"
      if "\<forall>t \<in> set (ready_list s). priority (threads s t) < pri"
    proof -
      have "ready_list s \<noteq> [] \<Longrightarrow> ComparePriority s3 page (hd (ready_list s))"
        using that assms(7) hd_in_set [of "ready_list s"] f3(6) [of "hd (ready_list s)"]
        by (cases "hd (ready_list s) = page") (auto simp: ComparePriority_def f3(4))
      then have "ready_list s3 = page # ready_list s"
        unfolding f3(3) by (rule list_insert_ordered_front)
      then show ?thesis by simp
    qed
    have "status (threads s' ?c) = THREAD_READY" "?c \<in> set (ready_list s')"
      "running s' = hd (ready_list s3)"
      "status (threads s' (hd (ready_list s3))) = THREAD_RUNNING"
      using hc by (simp_all add: s' yielded_def Let_def f3(1) hd tl)
    with True pp hc top show ?thesis by auto
  qed
qed


theorem thread_donate_priority_ready_ok_witness:
  "ready_ok donation_ready \<and> ready_list donation_ready = [3, 2] \<and>
   ready_ok (thread_donate_priority 2 donation_ready) \<and>
   priority (threads (thread_donate_priority 2 donation_ready) 2) = 9 \<and>
   ready_list (thread_donate_priority 2 donation_ready) = [2, 3]"
proof -
  have ok: "ready_ok donation_ready"
    by (simp add: ready_ok_def donation_ready_def example_state_def example_thread_def)
  have rl: "ready_list donation_ready = [3, 2]"
    "ready_list (thread_donate_priority 2 donation_ready) = [2, 3]"
    by (simp_all add: thread_donate_priority_def thread_update_priority_def Let_def
        upd_thread_def list_sort_def lock_cmp_priority_def ComparePriority_def
        donation_ready_def example_state_def example_thread_def)
  have dp: "donated_priority donation_ready 2 = 9"
    by (simp add: donated_priority_def donation_ready_def example_state_def example_thread_def)
  from thread_donate_priority_ready_ok [OF ok, of 2] ok rl dp show ?thesis by simp
qed

theorem thread_update_priority_mlfqs_all_sorted_witness:
  "\<exists>s'. thread_update_priority_mlfqs_all pintos_extern
          ((mlfqs_example [2, 3] False)
             \<lparr>threads := (threads (mlfqs_example [2, 3] False))
                (3 := (threads (mlfqs_example [2, 3] False) 3)\<lparr>recent_cpu := 0\<rparr>)\<rparr>) = Some s' \<and>
        ready_list s' = [3, 2] \<and> priority (threads s' 3) = 63 \<and> priority (threads s' 2) = 53"
proof -
  let ?s = "(mlfqs_example [2, 3] False)
             \<lparr>threads := (threads (mlfqs_example [2, 3] False))
                (3 := (threads (mlfqs_example [2, 3] False) 3)\<lparr>recent_cpu := 0\<rparr>)\<rparr>"
  have "\<exists>s'. thread_update_priority_mlfqs_all pintos_extern ?s = Some s' \<and>
        ready_list s' = [3, 2] \<and> priority (threads s' 3) = 63 \<and> priority (threads s' 2) = 53"
    by (simp add: thread_update_priority_mlfqs_all_def thread_foreach_def ASSERT_def
        thread_update_priority_mlfqs_def int_range_def upd_thread_def Let_def list_sort_def
        ComparePriority_def pintos_extern_def c_div_def mlfqs_example_def example_state_def
        example_thread_def)
  then obtain s' where r: "thread_update_priority_mlfqs_all pintos_extern ?s = Some s'"
    and f: "ready_list s' = [3, 2]" "priority (threads s' 3) = 63" "priority (threads s' 2) = 53"
    by blast
  from thread_update_priority_mlfqs_all_sorted [OF r] r f show ?thesis by blast
qed

theorem thread_set_priority_mlfqs_noop_witness:
  "thread_mlfqs (mlfqs_example [2, 3] False) \<and>
   thread_set_priority 10 (mlfqs_example [2, 3] False) = Some (mlfqs_example [2, 3] False)"
proof -
  have m: "thread_mlfqs (mlfqs_example [2, 3] False)"
    by (simp add: mlfqs_example_def)
  from thread_set_priority_mlfqs_noop [OF m, of 10] m show ?thesis by simp
qed

theorem thread_try_yeild_noop_witness:
  "\<not> front_outranks lowering_example \<and> is_thread lowering_example (running lowering_example) \<and>
   status (threads lowering_example (running lowering_example)) = THREAD_RUNNING \<and>
   thread_try_yeild lowering_example = Some lowering_example"
proof -
  have h: "\<not> front_outranks lowering_example"
    "is_thread lowering_example (running lowering_example)"
    "status (threads lowering_example (running lowering_example)) = THREAD_RUNNING"
    by (simp_all add: front_outranks_def lowering_example_simps)
  from thread_try_yeild_noop [OF h] h show ?thesis by simp
qed

theorem thread_create_default_scheduler_witness:
  "\<not> thread_mlfqs lowering_example \<and> running lowering_example = 5 \<and>
   priority (threads lowering_example 5) = 31 \<and>
   (\<exists>new_tid s'. thread_create pintos_extern 40 7 6 lowering_example = Some (new_tid, s') \<and>
      priority (threads s' 6) = 40 \<and> running s' = 6 \<and>
      status (threads s' 5) = THREAD_READY)"
proof -
  have "\<exists>s'. thread_create pintos_extern 40 7 6 lowering_example = Some (2, s')"
    by (simp add: thread_create_def init_thread_def allocate_tid_def ASSERT_def upd_thread_def
      Let_def thread_current_def is_thread_def thread_unblock_def ComparePriority_def
      pintos_extern_def thread_yield_def schedule_def next_thread_to_run_def
      thread_schedule_tail_def lowering_example_def example_state_def example_thread_def)
  then obtain s' where c: "thread_create pintos_extern 40 7 6 lowering_example = Some (2, s')"
    by blast
  have h: "(6::nat) \<noteq> 0" "6 \<noteq> running lowering_example"
    "running lowering_example \<noteq> idle_thread lowering_example"
    "running lowering_example \<notin> set (ready_list lowering_example)"
    "6 \<notin> set (ready_list lowering_example)"
    by (simp_all add: lowering_example_simps)
  from thread_create_default_scheduler [OF lowering_example_simps(1) c h] c
  show ?thesis
    by (auto simp: lowering_example_simps)
qed


end
